theory Spec2Isabelle
  imports Main "HOL-Library.AList"
begin

section \<open>JSON values and their text form\<close>

text \<open>
  The health layer of \<^verbatim>\<open>ConnectionManagerWithHealth.ts\<close> reads and rewrites JSON-RPC
  payloads with \<^verbatim>\<open>JSON.parse\<close> and \<^verbatim>\<open>JSON.stringify\<close>. Both are modelled on the
  text itself. Strings are lists of code units below 256; numbers are the integers, written
  without fraction or exponent (a numeric literal with a fraction or an exponent, and a
  four-digit escape of a code unit above 00ff, lie outside the modelled fragment and are not
  accepted by \<open>JSON_parse\<close>).
\<close>

datatype json =
    JNull
  | JBool bool
  | JNumber int
  | JString string
  | JArray "json list"
  | JObject "(string \<times> json) list"

subsection \<open>Writing JSON text\<close>

definition digit_char :: "nat \<Rightarrow> char" where
  "digit_char d = ''0123456789abcdef'' ! d"

fun show_nat :: "nat \<Rightarrow> string" where
  "show_nat n = (if n < 10 then [digit_char n] else show_nat (n div 10) @ [digit_char (n mod 10)])"

declare show_nat.simps [simp del]

definition show_int :: "int \<Rightarrow> string" where
  "show_int i = (if i < 0 then CHR ''-'' # show_nat (nat (- i)) else show_nat (nat i))"

definition quote_char :: "char \<Rightarrow> string" where
  "quote_char c =
     (if c = CHR 0x22 then [CHR 0x5C, CHR 0x22]
      else if c = CHR 0x5C then [CHR 0x5C, CHR 0x5C]
      else if c = CHR 0x08 then [CHR 0x5C, CHR ''b'']
      else if c = CHR 0x09 then [CHR 0x5C, CHR ''t'']
      else if c = CHR 0x0A then [CHR 0x5C, CHR ''n'']
      else if c = CHR 0x0C then [CHR 0x5C, CHR ''f'']
      else if c = CHR 0x0D then [CHR 0x5C, CHR ''r'']
      else if (of_char c :: nat) < 32
        then [CHR 0x5C, CHR ''u'', CHR ''0'', CHR ''0'',
              digit_char (of_char c div 16), digit_char (of_char c mod 16)]
      else [c])"

definition quote :: "string \<Rightarrow> string" where
  "quote s = CHR 0x22 # concat (map quote_char s) @ [CHR 0x22]"

fun JSON_stringify :: "json \<Rightarrow> string"
  and stringify_elements :: "json list \<Rightarrow> string"
  and stringify_members :: "(string \<times> json) list \<Rightarrow> string" where
  "JSON_stringify JNull = ''null''"
| "JSON_stringify (JBool b) = (if b then ''true'' else ''false'')"
| "JSON_stringify (JNumber i) = show_int i"
| "JSON_stringify (JString s) = quote s"
| "JSON_stringify (JArray vs) = ''['' @ stringify_elements vs @ '']''"
| "JSON_stringify (JObject ms) = ''{'' @ stringify_members ms @ ''}''"
| "stringify_elements [] = []"
| "stringify_elements [v] = JSON_stringify v"
| "stringify_elements (v # w # vs) = JSON_stringify v @ '','' @ stringify_elements (w # vs)"
| "stringify_members [] = []"
| "stringify_members [(k, v)] = quote k @ '':'' @ JSON_stringify v"
| "stringify_members ((k, v) # m # ms) =
     quote k @ '':'' @ JSON_stringify v @ '','' @ stringify_members (m # ms)"


subsection \<open>Reading JSON text\<close>

text \<open>The text is first cut into tokens; a push-down automaton then builds the value, one
  token at a time.\<close>

datatype token = TLBrace | TRBrace | TLBracket | TRBracket | TComma | TColon | TAtom json

definition is_digit :: "char \<Rightarrow> bool" where
  "is_digit c = (48 \<le> (of_char c :: nat) \<and> (of_char c :: nat) \<le> 57)"

definition digit_val :: "char \<Rightarrow> nat" where
  "digit_val c = of_char c - 48"

definition hex_val :: "char \<Rightarrow> nat option" where
  "hex_val c =
     (if is_digit c then Some (of_char c - 48)
      else if 97 \<le> (of_char c :: nat) \<and> (of_char c :: nat) \<le> 102 then Some (of_char c - 87)
      else if 65 \<le> (of_char c :: nat) \<and> (of_char c :: nat) \<le> 70 then Some (of_char c - 55)
      else None)"

definition unescape :: "char \<Rightarrow> char option" where
  "unescape e =
     (if e = CHR 0x22 then Some (CHR 0x22)
      else if e = CHR 0x5C then Some (CHR 0x5C)
      else if e = CHR ''/'' then Some (CHR ''/'')
      else if e = CHR ''b'' then Some (CHR 0x08)
      else if e = CHR ''f'' then Some (CHR 0x0C)
      else if e = CHR ''n'' then Some (CHR 0x0A)
      else if e = CHR ''r'' then Some (CHR 0x0D)
      else if e = CHR ''t'' then Some (CHR 0x09)
      else None)"

definition cons_char :: "char \<Rightarrow> (string \<times> string) option \<Rightarrow> (string \<times> string) option" where
  "cons_char c r = (case r of None \<Rightarrow> None | Some (s, rest) \<Rightarrow> Some (c # s, rest))"

fun scan_string :: "string \<Rightarrow> (string \<times> string) option" where
  "scan_string [] = None"
| "scan_string (c # cs) =
     (if c = CHR 0x22 then Some ([], cs)
      else if c = CHR 0x5C then
        (case cs of
           [] \<Rightarrow> None
         | e # cs' \<Rightarrow>
             if e = CHR ''u'' then
               (case cs' of
                  h1 # h2 # h3 # h4 # cs'' \<Rightarrow>
                    (case (hex_val h1, hex_val h2, hex_val h3, hex_val h4) of
                       (Some a, Some b, Some x, Some y) \<Rightarrow>
                         if a = 0 \<and> b = 0 then cons_char (char_of (x * 16 + y)) (scan_string cs'')
                         else None
                     | _ \<Rightarrow> None)
                | _ \<Rightarrow> None)
             else
               (case unescape e of
                  None \<Rightarrow> None
                | Some ch \<Rightarrow> cons_char ch (scan_string cs')))
      else if (of_char c :: nat) < 32 then None
      else cons_char c (scan_string cs))"

fun scan_digits :: "nat \<Rightarrow> string \<Rightarrow> nat \<times> string" where
  "scan_digits acc [] = (acc, [])"
| "scan_digits acc (c # cs) =
     (if is_digit c then scan_digits (acc * 10 + digit_val c) cs else (acc, c # cs))"

definition scan_number :: "string \<Rightarrow> (nat \<times> string) option" where
  "scan_number cs =
     (case cs of
        [] \<Rightarrow> None
      | c # cs' \<Rightarrow>
          if \<not> is_digit c then None
          else
            (let (n, rest) = (if c = CHR ''0'' then (0, cs') else scan_digits (digit_val c) cs')
             in case rest of
                  [] \<Rightarrow> Some (n, rest)
                | d # _ \<Rightarrow>
                    if d = CHR ''.'' \<or> d = CHR ''e'' \<or> d = CHR ''E'' then None
                    else Some (n, rest)))"

definition is_ws :: "char \<Rightarrow> bool" where
  "is_ws c = (c = CHR '' '' \<or> c = CHR 0x09 \<or> c = CHR 0x0A \<or> c = CHR 0x0D)"

definition cons_token :: "token \<Rightarrow> token list option \<Rightarrow> token list option" where
  "cons_token t r = (case r of None \<Rightarrow> None | Some ts \<Rightarrow> Some (t # ts))"

lemma cons_char_Some:
  "cons_char c r = Some (s, rest) \<longleftrightarrow> (\<exists>s'. r = Some (s', rest) \<and> s = c # s')"
  by (auto simp: cons_char_def split: option.splits)

lemma scan_string_shorter: "scan_string cs = Some (s, rest) \<Longrightarrow> length rest < length cs"
proof (induction cs arbitrary: s rest rule: length_induct)
  case (1 cs)
  show ?case
  proof (cases cs)
    case Nil
    with 1 show ?thesis by simp
  next
    case (Cons c cs')
    have IH: "\<And>ys s' r. length ys < length cs \<Longrightarrow> scan_string ys = Some (s', r) \<Longrightarrow> length r < length ys"
      using 1(1) by blast
    from 1(2) Cons show ?thesis
      by (auto simp: cons_char_Some split: if_splits list.splits option.splits dest!: IH [rotated])
  qed
qed

lemma scan_digits_shorter: "scan_digits acc cs = (n, rest) \<Longrightarrow> length rest \<le> length cs"
  by (induction acc cs arbitrary: n rest rule: scan_digits.induct) (auto split: if_splits)

lemma scan_number_shorter: "scan_number cs = Some (n, rest) \<Longrightarrow> length rest < length cs"
  by (auto simp: scan_number_def Let_def split: list.splits if_splits prod.splits
           dest: scan_digits_shorter)

function tokenize :: "string \<Rightarrow> token list option" where
  "tokenize [] = Some []"
| "tokenize (c # cs) =
     (if is_ws c then tokenize cs
      else if c = CHR ''{'' then cons_token TLBrace (tokenize cs)
      else if c = CHR ''}'' then cons_token TRBrace (tokenize cs)
      else if c = CHR ''['' then cons_token TLBracket (tokenize cs)
      else if c = CHR '']'' then cons_token TRBracket (tokenize cs)
      else if c = CHR '','' then cons_token TComma (tokenize cs)
      else if c = CHR '':'' then cons_token TColon (tokenize cs)
      else if c = CHR 0x22 then
        (case scan_string cs of
           None \<Rightarrow> None
         | Some (s, rest) \<Rightarrow> cons_token (TAtom (JString s)) (tokenize rest))
      else if c = CHR ''-'' then
        (case scan_number cs of
           None \<Rightarrow> None
         | Some (n, rest) \<Rightarrow> cons_token (TAtom (JNumber (- int n))) (tokenize rest))
      else if is_digit c then
        (case scan_number (c # cs) of
           None \<Rightarrow> None
         | Some (n, rest) \<Rightarrow> cons_token (TAtom (JNumber (int n))) (tokenize rest))
      else if take 4 (c # cs) = ''null'' then cons_token (TAtom JNull) (tokenize (drop 3 cs))
      else if take 4 (c # cs) = ''true'' then cons_token (TAtom (JBool True)) (tokenize (drop 3 cs))
      else if take 5 (c # cs) = ''false'' then cons_token (TAtom (JBool False)) (tokenize (drop 4 cs))
      else None)"
  by pat_completeness auto
termination
  by (relation "measure length")
     (auto dest: scan_string_shorter scan_number_shorter)


text \<open>Property order of a JavaScript object: array-index keys first, ascending; then the other
  keys in the order of their creation. Assigning to an existing key keeps its place.\<close>

fun digits_less :: "string \<Rightarrow> string \<Rightarrow> bool" where
  "digits_less (a # as) (b # bs) =
     ((of_char a :: nat) < of_char b \<or> (a = b \<and> digits_less as bs))"
| "digits_less _ _ = False"

definition index_less :: "string \<Rightarrow> string \<Rightarrow> bool" where
  "index_less a b = (length a < length b \<or> (length a = length b \<and> digits_less a b))"

definition is_array_index :: "string \<Rightarrow> bool" where
  "is_array_index k =
     (k \<noteq> [] \<and> list_all is_digit k \<and> (k = ''0'' \<or> hd k \<noteq> CHR ''0'')
      \<and> index_less k ''4294967295'')"

fun insert_index :: "string \<Rightarrow> json \<Rightarrow> (string \<times> json) list \<Rightarrow> (string \<times> json) list" where
  "insert_index k v [] = [(k, v)]"
| "insert_index k v ((k', v') # ms) =
     (if is_array_index k' \<and> index_less k' k
      then (k', v') # insert_index k v ms
      else (k, v) # (k', v') # ms)"

definition obj_set :: "(string \<times> json) list \<Rightarrow> string \<Rightarrow> json \<Rightarrow> (string \<times> json) list" where
  "obj_set ms k v =
     (if k \<in> fst ` set ms then AList.update k v ms
      else if is_array_index k then insert_index k v ms
      else ms @ [(k, v)])"

datatype frame = FArr "json list" | FObj "(string \<times> json) list" string

datatype pstate =
    SValue "frame list"
  | SArrFirst "frame list"
  | SArrNext "json list" "frame list"
  | SObjFirst "frame list"
  | SObjKey "(string \<times> json) list" "frame list"
  | SObjColon "(string \<times> json) list" string "frame list"
  | SObjNext "(string \<times> json) list" "frame list"
  | SDone json

fun finish :: "json \<Rightarrow> frame list \<Rightarrow> pstate" where
  "finish v [] = SDone v"
| "finish v (FArr es # ctx) = SArrNext (es @ [v]) ctx"
| "finish v (FObj ms k # ctx) = SObjNext (obj_set ms k v) ctx"

fun open_value :: "frame list \<Rightarrow> token \<Rightarrow> pstate option" where
  "open_value ctx (TAtom v) = Some (finish v ctx)"
| "open_value ctx TLBracket = Some (SArrFirst ctx)"
| "open_value ctx TLBrace = Some (SObjFirst ctx)"
| "open_value ctx _ = None"

fun pstep :: "pstate \<Rightarrow> token \<Rightarrow> pstate option" where
  "pstep (SValue ctx) t = open_value ctx t"
| "pstep (SArrFirst ctx) TRBracket = Some (finish (JArray []) ctx)"
| "pstep (SArrFirst ctx) t = open_value (FArr [] # ctx) t"
| "pstep (SArrNext es ctx) TComma = Some (SValue (FArr es # ctx))"
| "pstep (SArrNext es ctx) TRBracket = Some (finish (JArray es) ctx)"
| "pstep (SObjFirst ctx) TRBrace = Some (finish (JObject []) ctx)"
| "pstep (SObjFirst ctx) (TAtom (JString k)) = Some (SObjColon [] k ctx)"
| "pstep (SObjKey ms ctx) (TAtom (JString k)) = Some (SObjColon ms k ctx)"
| "pstep (SObjColon ms k ctx) TColon = Some (SValue (FObj ms k # ctx))"
| "pstep (SObjNext ms ctx) TComma = Some (SObjKey ms ctx)"
| "pstep (SObjNext ms ctx) TRBrace = Some (finish (JObject ms) ctx)"
| "pstep _ _ = None"

fun parse_tokens :: "pstate \<Rightarrow> token list \<Rightarrow> json option" where
  "parse_tokens (SDone v) [] = Some v"
| "parse_tokens st [] = None"
| "parse_tokens st (t # ts) =
     (case pstep st t of None \<Rightarrow> None | Some st' \<Rightarrow> parse_tokens st' ts)"

definition JSON_parse :: "string \<Rightarrow> json option" where
  "JSON_parse s = (case tokenize s of None \<Rightarrow> None | Some ts \<Rightarrow> parse_tokens (SValue []) ts)"


section \<open>JavaScript values\<close>

text \<open>A value read from a parsed message is a JSON value or \<^verbatim>\<open>undefined\<close> (\<open>None\<close>).\<close>

type_synonym jsval = "json option"

datatype error =
    SyntaxError   \<comment> \<open>thrown by \<^verbatim>\<open>JSON.parse\<close>\<close>
  | TypeError     \<comment> \<open>a property of \<^verbatim>\<open>undefined\<close> or \<^verbatim>\<open>null\<close>, a method that is not there\<close>
  | PlainError    \<comment> \<open>\<^verbatim>\<open>throw new Error()\<close>\<close>
  | InnerError    \<comment> \<open>an exception of the inner \<^verbatim>\<open>ConnectionManager\<close>\<close>

text \<open>Reading a property. The names the code reads (\<^verbatim>\<open>id\<close>, \<^verbatim>\<open>method\<close>, \<^verbatim>\<open>params\<close>,
  \<^verbatim>\<open>subscription\<close>, \<^verbatim>\<open>result\<close>, \<^verbatim>\<open>event\<close>, \<^verbatim>\<open>peers\<close>) are own properties of objects only:
  on an array, a string, a number or a boolean they read as \<^verbatim>\<open>undefined\<close>.\<close>

fun get_prop :: "jsval \<Rightarrow> string \<Rightarrow> error + jsval" where
  "get_prop None k = Inl TypeError"
| "get_prop (Some JNull) k = Inl TypeError"
| "get_prop (Some (JObject ms)) k = Inr (map_of ms k)"
| "get_prop (Some _) k = Inr None"

text \<open>Assigning a property that is not an array index (the code assigns \<^verbatim>\<open>id\<close> only). Class
  bodies are strict code: the assignment throws on a primitive. On an array the property is
  stored but is no element, so \<^verbatim>\<open>JSON.stringify\<close> does not see it.\<close>

fun set_prop :: "json \<Rightarrow> string \<Rightarrow> json \<Rightarrow> error + json" where
  "set_prop (JObject ms) k v = Inr (JObject (obj_set ms k v))"
| "set_prop (JArray es) k v = Inr (JArray es)"
| "set_prop _ k v = Inl TypeError"

fun truthy :: "jsval \<Rightarrow> bool" where
  "truthy None = False"
| "truthy (Some JNull) = False"
| "truthy (Some (JBool b)) = b"
| "truthy (Some (JNumber i)) = (i \<noteq> 0)"
| "truthy (Some (JString s)) = (s \<noteq> [])"
| "truthy (Some _) = True"

text \<open>\<^verbatim>\<open>===\<close> between a value of the message just parsed and any other value: primitives
  compare by value, an object or an array of the new message is identical to nothing else.\<close>

fun strict_eq :: "jsval \<Rightarrow> jsval \<Rightarrow> bool" where
  "strict_eq None None = True"
| "strict_eq (Some JNull) (Some JNull) = True"
| "strict_eq (Some (JBool a)) (Some (JBool b)) = (a = b)"
| "strict_eq (Some (JNumber a)) (Some (JNumber b)) = (a = b)"
| "strict_eq (Some (JString a)) (Some (JString b)) = (a = b)"
| "strict_eq _ _ = False"

definition startsWith :: "string \<Rightarrow> string \<Rightarrow> bool" where
  "startsWith s p = (take (length p) s = p)"

text \<open>\<^verbatim>\<open>"extern:" + JSON.stringify(v)\<close>: \<^verbatim>\<open>JSON.stringify(undefined)\<close> is \<^verbatim>\<open>undefined\<close>, which
  the concatenation writes as the word.\<close>

definition stringify_in_concat :: "jsval \<Rightarrow> string" where
  "stringify_in_concat v = (case v of None \<Rightarrow> ''undefined'' | Some j \<Rightarrow> JSON_stringify j)"

section \<open>Messages\<close>

type_synonym chainId = string

text \<open>\<^verbatim>\<open>ToApplication\<close> and \<^verbatim>\<open>ToExtension\<close> of the extension protocol, by their \<^verbatim>\<open>type\<close> tag.\<close>

datatype ToApplication =
    AppError chainId string         \<comment> \<open>\<^verbatim>\<open>error\<close>: chainId, errorMessage\<close>
  | ChainReady chainId              \<comment> \<open>\<^verbatim>\<open>chain-ready\<close>\<close>
  | AppRpc chainId string           \<comment> \<open>\<^verbatim>\<open>rpc\<close>: chainId, jsonRpcMessage\<close>
  | AppOther string                 \<comment> \<open>any other tag\<close>

datatype ToExtension =
    ExtRpc chainId string                     \<comment> \<open>\<^verbatim>\<open>rpc\<close>: chainId, jsonRpcMessage\<close>
  | RemoveChain chainId                       \<comment> \<open>\<^verbatim>\<open>remove-chain\<close>\<close>
  | AddChain chainId string "string list"     \<comment> \<open>\<^verbatim>\<open>add-chain\<close>\<close>
  | AddWellKnownChain chainId string          \<comment> \<open>\<^verbatim>\<open>add-well-known-chain\<close>\<close>

text \<open>What \<^verbatim>\<open>nextSandboxMessage\<close> hands to its caller.\<close>

datatype delivery = ToApp ToApplication | ChainsStatusChanged

section \<open>The inner connection manager\<close>

text \<open>
  Modelled from the spec: the class \<^verbatim>\<open>ConnectionManager\<close> of \<^verbatim>\<open>./ConnectionManager\<close>, which the
  health layer wraps. The model keeps what the contract of the inner manager states:
  the known sandboxes (adding a known one and using or deleting an unknown one fail), the
  messages injected so far, and for each sandbox the items it has produced and not yet
  handed out. What the chain engine answers is left open: items enter the queue from outside.
\<close>

record 'sid ConnectionManager =
  cm_sandboxes :: "'sid list"
  cm_received :: "('sid \<times> ToExtension) list"
  cm_queue :: "('sid \<times> ToApplication list) list"

text \<open>Modelled from the spec: the items of a sandbox that \<^verbatim>\<open>ConnectionManager.nextSandboxMessage\<close>
  has not handed out yet, oldest first.\<close>

definition queue_of :: "'sid ConnectionManager \<Rightarrow> 'sid \<Rightarrow> ToApplication list" where
  "queue_of cm s = (case map_of (cm_queue cm) s of None \<Rightarrow> [] | Some q \<Rightarrow> q)"

text \<open>Modelled from the spec: \<^verbatim>\<open>ConnectionManager.addSandbox\<close> fails on a duplicate id.\<close>

definition cm_addSandbox :: "'sid ConnectionManager \<Rightarrow> 'sid \<Rightarrow> error + 'sid ConnectionManager" where
  "cm_addSandbox cm s =
     (if s \<in> set (cm_sandboxes cm) then Inl InnerError
      else Inr (cm\<lparr>cm_sandboxes := cm_sandboxes cm @ [s]\<rparr>))"

text \<open>Modelled from the spec: \<^verbatim>\<open>ConnectionManager.deleteSandbox\<close> fails on an unknown id and
  removes every trace of the sandbox.\<close>

definition cm_deleteSandbox :: "'sid ConnectionManager \<Rightarrow> 'sid \<Rightarrow> error + 'sid ConnectionManager" where
  "cm_deleteSandbox cm s =
     (if s \<notin> set (cm_sandboxes cm) then Inl InnerError
      else Inr (cm\<lparr>cm_sandboxes := removeAll s (cm_sandboxes cm),
                   cm_queue := AList.delete s (cm_queue cm)\<rparr>))"

text \<open>Modelled from the spec: \<^verbatim>\<open>ConnectionManager.sandboxMessage\<close> fails on an unknown id and
  takes the message otherwise.\<close>

definition cm_sandboxMessage ::
  "'sid ConnectionManager \<Rightarrow> 'sid \<Rightarrow> ToExtension \<Rightarrow> error + 'sid ConnectionManager" where
  "cm_sandboxMessage cm s msg =
     (if s \<notin> set (cm_sandboxes cm) then Inl InnerError
      else Inr (cm\<lparr>cm_received := cm_received cm @ [(s, msg)]\<rparr>))"

text \<open>Modelled from the spec: \<^verbatim>\<open>ConnectionManager.nextSandboxMessage\<close>, a suspending pull that
  fails on an unknown id. Its outcome is an exception, an item, or a promise that stays
  pending.\<close>

datatype 'sid cm_pull = CmThrew error | CmItem ToApplication "'sid ConnectionManager" | CmPending

definition cm_nextSandboxMessage :: "'sid ConnectionManager \<Rightarrow> 'sid \<Rightarrow> 'sid cm_pull" where
  "cm_nextSandboxMessage cm s =
     (if s \<notin> set (cm_sandboxes cm) then CmThrew InnerError
      else case queue_of cm s of
             [] \<Rightarrow> CmPending
           | x # q \<Rightarrow> CmItem x (cm\<lparr>cm_queue := AList.update s q (cm_queue cm)\<rparr>))"

text \<open>Modelled from the spec: the inner manager makes one more item ready for a sandbox it
  knows.\<close>

definition cm_produce :: "'sid ConnectionManager \<Rightarrow> 'sid \<Rightarrow> ToApplication \<Rightarrow> 'sid ConnectionManager" where
  "cm_produce cm s x =
     (if s \<notin> set (cm_sandboxes cm) then cm
      else cm\<lparr>cm_queue := AList.update s (queue_of cm s @ [x]) (cm_queue cm)\<rparr>)"

section \<open>The connection manager with health\<close>

text \<open>The interface \<^verbatim>\<open>Chain\<close>. The two fields that take their value from a message hold
  whatever the message held there.\<close>

record Chain =
  readySubscriptionId :: jsval
  isSyncing :: bool
  peers :: jsval

text \<open>The private fields of the class. A \<^verbatim>\<open>Map\<close> keeps its keys in insertion order:
  \<^verbatim>\<open>set\<close> is \<open>AList.update\<close>, \<^verbatim>\<open>delete\<close> is \<open>AList.delete\<close>, \<^verbatim>\<open>get\<close> is \<open>map_of\<close>.
  The counter is a number that starts at 0 and only grows, by one at a time (exactly so
  below \<open>2 ^ 53\<close>); it is modelled as a natural number.\<close>

record 'sid ConnectionManagerWithHealth =
  inner :: "'sid ConnectionManager"
  sandboxesChains :: "('sid \<times> (chainId \<times> Chain) list) list"
  nextHealthCheckRqId :: nat

definition follow_request :: "nat \<Rightarrow> string" where
  "follow_request n =
     JSON_stringify (JObject
       [(''jsonrpc'', JString ''2.0''),
        (''id'', JString (''ready-sub:'' @ show_nat n)),
        (''method'', JString ''chainHead_unstable_follow''),
        (''params'', JArray [JBool True])])"

definition health_request :: "nat \<Rightarrow> string" where
  "health_request n =
     JSON_stringify (JObject
       [(''jsonrpc'', JString ''2.0''),
        (''id'', JString (''health-check:'' @ show_nat n)),
        (''method'', JString ''system_health''),
        (''params'', JArray [])])"

text \<open>Writing to a field of the chain object found in the map of sandbox \<open>s\<close>.\<close>

definition store_chain ::
  "'sid ConnectionManagerWithHealth \<Rightarrow> 'sid \<Rightarrow> (chainId \<times> Chain) list \<Rightarrow> chainId \<Rightarrow> Chain
     \<Rightarrow> 'sid ConnectionManagerWithHealth" where
  "store_chain m s sandbox c ch =
     m\<lparr>sandboxesChains := AList.update s (AList.update c ch sandbox) (sandboxesChains m)\<rparr>"

subsection \<open>addSandbox, deleteSandbox\<close>

definition addSandbox ::
  "'sid ConnectionManagerWithHealth \<Rightarrow> 'sid \<Rightarrow> (error + unit) \<times> 'sid ConnectionManagerWithHealth" where
  "addSandbox m s =
     (case cm_addSandbox (inner m) s of
        Inl e \<Rightarrow> (Inl e, m)
      | Inr cm \<Rightarrow> (Inr (), m\<lparr>inner := cm, sandboxesChains := AList.update s [] (sandboxesChains m)\<rparr>))"

definition deleteSandbox ::
  "'sid ConnectionManagerWithHealth \<Rightarrow> 'sid \<Rightarrow> (error + unit) \<times> 'sid ConnectionManagerWithHealth" where
  "deleteSandbox m s =
     (case cm_deleteSandbox (inner m) s of
        Inl e \<Rightarrow> (Inl e, m)
      | Inr cm \<Rightarrow> (Inr (), m\<lparr>inner := cm, sandboxesChains := AList.delete s (sandboxesChains m)\<rparr>))"

subsection \<open>nextSandboxMessage\<close>

text \<open>One turn of the \<^verbatim>\<open>while (true)\<close> loop ends with \<^verbatim>\<open>return\<close>, with \<^verbatim>\<open>break\<close> out of the
  \<^verbatim>\<open>switch\<close> (the loop goes on) or with an exception.\<close>

datatype turn = Return delivery | Continue | Throw error

text \<open>The \<^verbatim>\<open>rpc\<close> case, for a message whose \<^verbatim>\<open>id\<close> is truthy.\<close>

definition handle_response ::
  "'sid ConnectionManagerWithHealth \<Rightarrow> 'sid \<Rightarrow> chainId \<Rightarrow> (chainId \<times> Chain) list \<Rightarrow> json \<Rightarrow> jsval
     \<Rightarrow> turn \<times> 'sid ConnectionManagerWithHealth" where
  "handle_response m s c sandbox msg idv =
     (case idv of
        Some (JString i) \<Rightarrow>
          if startsWith i ''extern:'' then
            (case JSON_parse (drop (length ''extern:'') i) of
               None \<Rightarrow> (Throw SyntaxError, m)
             | Some x \<Rightarrow>
                 (case set_prop msg ''id'' x of
                    Inl e \<Rightarrow> (Throw e, m)
                  | Inr msg' \<Rightarrow> (Return (ToApp (AppRpc c (JSON_stringify msg'))), m)))
          else if startsWith i ''health-check:'' then
            (case get_prop (Some msg) ''result'' of
               Inl e \<Rightarrow> (Throw e, m)
             | Inr result \<Rightarrow>
                 (case get_prop result ''peers'' of
                    Inl e \<Rightarrow> (Throw e, m)
                  | Inr p \<Rightarrow>
                      (case map_of sandbox c of
                         None \<Rightarrow> (Throw TypeError, m)
                       | Some chain \<Rightarrow>
                           (Return ChainsStatusChanged,
                            store_chain m s sandbox c (chain\<lparr>peers := p\<rparr>)))))
          else if startsWith i ''ready-sub:'' then
            (case get_prop (Some msg) ''result'' of
               Inl e \<Rightarrow> (Throw e, m)
             | Inr result \<Rightarrow>
                 (case map_of sandbox c of
                    None \<Rightarrow> (Throw TypeError, m)
                  | Some chain \<Rightarrow>
                      (Continue, store_chain m s sandbox c (chain\<lparr>readySubscriptionId := result\<rparr>))))
          else (Throw PlainError, m)
      | _ \<Rightarrow> (Throw TypeError, m))"

text \<open>The \<^verbatim>\<open>rpc\<close> case, for a message whose \<^verbatim>\<open>id\<close> is falsy: a notification. The \<^verbatim>\<open>stop\<close>
  branch sends its request and leaves the counter as it is.\<close>

definition handle_notification ::
  "'sid ConnectionManagerWithHealth \<Rightarrow> 'sid \<Rightarrow> chainId \<Rightarrow> string \<Rightarrow> (chainId \<times> Chain) list \<Rightarrow> json
     \<Rightarrow> turn \<times> 'sid ConnectionManagerWithHealth" where
  "handle_notification m s c text sandbox msg =
     (case get_prop (Some msg) ''method'' of
        Inl e \<Rightarrow> (Throw e, m)
      | Inr method \<Rightarrow>
          if strict_eq method (Some (JString ''chainHead_unstable_followEvent'')) then
            (case get_prop (Some msg) ''params'' of
               Inl e \<Rightarrow> (Throw e, m)
             | Inr params \<Rightarrow>
            (case get_prop params ''subscription'' of
               Inl e \<Rightarrow> (Throw e, m)
             | Inr subscription \<Rightarrow>
            (case map_of sandbox c of
               None \<Rightarrow> (Throw TypeError, m)
             | Some chain \<Rightarrow>
                 if strict_eq subscription (readySubscriptionId chain) then
                   (case get_prop params ''result'' of
                      Inl e \<Rightarrow> (Throw e, m)
                    | Inr result \<Rightarrow>
                   (case get_prop result ''event'' of
                      Inl e \<Rightarrow> (Throw e, m)
                    | Inr event \<Rightarrow>
                        if strict_eq event (Some (JString ''initialized'')) then
                          (let m1 = store_chain m s sandbox c (chain\<lparr>isSyncing := False\<rparr>)
                           in case cm_sandboxMessage (inner m1) s
                                     (ExtRpc c (health_request (nextHealthCheckRqId m1))) of
                                Inl e \<Rightarrow> (Throw e, m1)
                              | Inr cm \<Rightarrow>
                                  (Return ChainsStatusChanged,
                                   m1\<lparr>inner := cm,
                                      nextHealthCheckRqId := nextHealthCheckRqId m1 + 1\<rparr>))
                        else if strict_eq event (Some (JString ''stop'')) then
                          (let m1 = store_chain m s sandbox c (chain\<lparr>readySubscriptionId := None\<rparr>)
                           in case cm_sandboxMessage (inner m1) s
                                     (ExtRpc c (follow_request (nextHealthCheckRqId m1))) of
                                Inl e \<Rightarrow> (Throw e, m1)
                              | Inr cm \<Rightarrow> (Continue, m1\<lparr>inner := cm\<rparr>))
                        else (Continue, m)))
                 else (Return (ToApp (AppRpc c text)), m))))
          else (Return (ToApp (AppRpc c text)), m))"

definition handle_rpc ::
  "'sid ConnectionManagerWithHealth \<Rightarrow> 'sid \<Rightarrow> chainId \<Rightarrow> string
     \<Rightarrow> turn \<times> 'sid ConnectionManagerWithHealth" where
  "handle_rpc m s c text =
     (case map_of (sandboxesChains m) s of
        None \<Rightarrow> (Throw TypeError, m)
      | Some sandbox \<Rightarrow>
          (case JSON_parse text of
             None \<Rightarrow> (Throw SyntaxError, m)
           | Some msg \<Rightarrow>
               (case get_prop (Some msg) ''id'' of
                  Inl e \<Rightarrow> (Throw e, m)
                | Inr idv \<Rightarrow>
                    if truthy idv then handle_response m s c sandbox msg idv
                    else handle_notification m s c text sandbox msg)))"

text \<open>The body of the loop, for the item the inner manager has handed out.\<close>

fun handle_item ::
  "'sid ConnectionManagerWithHealth \<Rightarrow> 'sid \<Rightarrow> ToApplication
     \<Rightarrow> turn \<times> 'sid ConnectionManagerWithHealth" where
  "handle_item m s (ChainReady c) =
     (let m1 = (case map_of (sandboxesChains m) s of
                  None \<Rightarrow> m
                | Some sandbox \<Rightarrow>
                    store_chain m s sandbox c
                      \<lparr>readySubscriptionId = None, isSyncing = True, peers = Some (JNumber 0)\<rparr>)
      in case cm_sandboxMessage (inner m1) s (ExtRpc c (follow_request (nextHealthCheckRqId m1))) of
           Inl e \<Rightarrow> (Throw e, m1)
         | Inr cm \<Rightarrow>
             (Return (ToApp (ChainReady c)),
              m1\<lparr>inner := cm, nextHealthCheckRqId := nextHealthCheckRqId m1 + 1\<rparr>))"
| "handle_item m s (AppRpc c text) = handle_rpc m s c text"
| "handle_item m s (AppError c msg) =
     (Return (ToApp (AppError c msg)),
      case map_of (sandboxesChains m) s of
        None \<Rightarrow> m
      | Some sandbox \<Rightarrow>
          m\<lparr>sandboxesChains := AList.update s (AList.delete c sandbox) (sandboxesChains m)\<rparr>)"
| "handle_item m s (AppOther t) = (Return (ToApp (AppOther t)), m)"

text \<open>The outcome of the asynchronous call: an exception, a message, or a promise that is
  still pending because the inner manager has nothing more to hand out.\<close>

datatype pull = Threw error | Delivered delivery | Pending

lemma store_chain_queue [simp]: "cm_queue (inner (store_chain m s sb c ch)) = cm_queue (inner m)"
  by (simp add: store_chain_def)

lemma cm_sandboxMessage_queue: "cm_sandboxMessage cm s x = Inr cm' \<Longrightarrow> cm_queue cm' = cm_queue cm"
  by (auto simp: cm_sandboxMessage_def split: if_splits)

lemma handle_response_queue:
  "handle_response m s c sb msg idv = (t, m') \<Longrightarrow> cm_queue (inner m') = cm_queue (inner m)"
  by (auto simp: handle_response_def
           split: option.splits json.splits if_splits sum.splits)

lemma handle_notification_queue:
  "handle_notification m s c text sb msg = (t, m') \<Longrightarrow> cm_queue (inner m') = cm_queue (inner m)"
  by (auto simp: handle_notification_def Let_def
           split: option.splits if_splits sum.splits dest: cm_sandboxMessage_queue)

lemma handle_item_queue:
  assumes "handle_item m s x = (t, m')"
  shows "cm_queue (inner m') = cm_queue (inner m)"
proof (cases x)
  case (ChainReady c)
  with assms show ?thesis
    by (auto simp: Let_def split: option.splits sum.splits dest: cm_sandboxMessage_queue)
next
  case (AppRpc c payload)
  with assms show ?thesis
    by (auto simp: handle_rpc_def split: option.splits sum.splits if_splits
             dest: handle_response_queue handle_notification_queue)
next
  case (AppError c msg)
  with assms show ?thesis by (auto split: option.splits)
next
  case (AppOther tag)
  with assms show ?thesis by auto
qed

lemma cm_next_item_shorter:
  "cm_nextSandboxMessage cm s = CmItem x cm' \<Longrightarrow> length (queue_of cm' s) < length (queue_of cm s)"
  by (auto simp: cm_nextSandboxMessage_def queue_of_def update_conv'
           split: if_splits list.splits option.splits)

lemma handle_item_shorter:
  assumes "cm_nextSandboxMessage (inner m) s = CmItem x cm"
    and "(t, m') = handle_item (m\<lparr>inner := cm\<rparr>) s x"
  shows "length (queue_of (inner m') s) < length (queue_of (inner m) s)"
proof -
  have "cm_queue (inner m') = cm_queue cm"
    using handle_item_queue [of "m\<lparr>inner := cm\<rparr>" s x t m'] assms(2) by simp
  then have "queue_of (inner m') s = queue_of cm s"
    by (simp add: queue_of_def)
  with cm_next_item_shorter [OF assms(1)] show ?thesis by simp
qed

function nextSandboxMessage ::
  "'sid ConnectionManagerWithHealth \<Rightarrow> 'sid \<Rightarrow> pull \<times> 'sid ConnectionManagerWithHealth" where
  "nextSandboxMessage m s =
     (case cm_nextSandboxMessage (inner m) s of
        CmThrew e \<Rightarrow> (Threw e, m)
      | CmPending \<Rightarrow> (Pending, m)
      | CmItem toApplication cm \<Rightarrow>
          (case handle_item (m\<lparr>inner := cm\<rparr>) s toApplication of
             (Return d, m') \<Rightarrow> (Delivered d, m')
           | (Throw e, m') \<Rightarrow> (Threw e, m')
           | (Continue, m') \<Rightarrow> nextSandboxMessage m' s))"
  by pat_completeness auto
termination
  by (relation "measure (\<lambda>(m, s). length (queue_of (inner m) s))")
     (auto intro: handle_item_shorter)

declare nextSandboxMessage.simps [simp del]

subsection \<open>sandboxMessage\<close>

text \<open>The body of the \<^verbatim>\<open>try\<close> block: the new text of the message, or the exception.\<close>

definition wrap_id :: "string \<Rightarrow> error + string" where
  "wrap_id text =
     (case JSON_parse text of
        None \<Rightarrow> Inl SyntaxError
      | Some parsedJsonRpcMessage \<Rightarrow>
          (case get_prop (Some parsedJsonRpcMessage) ''id'' of
             Inl e \<Rightarrow> Inl e
           | Inr idv \<Rightarrow>
               (case set_prop parsedJsonRpcMessage ''id''
                       (JString (''extern:'' @ stringify_in_concat idv)) of
                  Inl e \<Rightarrow> Inl e
                | Inr msg' \<Rightarrow> Inr (JSON_stringify msg'))))"

text \<open>\<^verbatim>\<open>try { ... } finally { inner.sandboxMessage }\<close>: the \<^verbatim>\<open>finally\<close> block runs on both ways
  out of the \<^verbatim>\<open>try\<close> block, and an exception of the \<^verbatim>\<open>try\<close> block goes on to the caller after
  it, unless the \<^verbatim>\<open>finally\<close> block throws itself.\<close>

fun sandboxMessage ::
  "'sid ConnectionManagerWithHealth \<Rightarrow> 'sid \<Rightarrow> ToExtension
     \<Rightarrow> (error + unit) \<times> 'sid ConnectionManagerWithHealth" where
  "sandboxMessage m s (RemoveChain c) =
     (case map_of (sandboxesChains m) s of
        None \<Rightarrow> (Inl TypeError, m)
      | Some sandbox \<Rightarrow>
          (let m1 = m\<lparr>sandboxesChains := AList.update s (AList.delete c sandbox) (sandboxesChains m)\<rparr>
           in case cm_sandboxMessage (inner m1) s (RemoveChain c) of
                Inl e \<Rightarrow> (Inl e, m1)
              | Inr cm \<Rightarrow> (Inr (), m1\<lparr>inner := cm\<rparr>)))"
| "sandboxMessage m s (ExtRpc c text) =
     (case wrap_id text of
        Inl e \<Rightarrow>
          (case cm_sandboxMessage (inner m) s (ExtRpc c text) of
             Inl e' \<Rightarrow> (Inl e', m)
           | Inr cm \<Rightarrow> (Inl e, m\<lparr>inner := cm\<rparr>))
      | Inr text' \<Rightarrow>
          (case cm_sandboxMessage (inner m) s (ExtRpc c text') of
             Inl e' \<Rightarrow> (Inl e', m)
           | Inr cm \<Rightarrow> (Inr (), m\<lparr>inner := cm\<rparr>)))"
| "sandboxMessage m s message =
     (case cm_sandboxMessage (inner m) s message of
        Inl e \<Rightarrow> (Inl e, m)
      | Inr cm \<Rightarrow> (Inr (), m\<lparr>inner := cm\<rparr>))"

subsection \<open>The ping timer\<close>

text \<open>\<^verbatim>\<open>#sendPings\<close>: the two nested \<^verbatim>\<open>for\<close> loops over the maps. An exception of the inner
  manager ends the run where it stands.\<close>

fun ping_chains ::
  "'sid \<Rightarrow> chainId list \<Rightarrow> 'sid ConnectionManagerWithHealth
     \<Rightarrow> (error + unit) \<times> 'sid ConnectionManagerWithHealth" where
  "ping_chains s [] m = (Inr (), m)"
| "ping_chains s (c # cs) m =
     (case cm_sandboxMessage (inner m) s (ExtRpc c (health_request (nextHealthCheckRqId m))) of
        Inl e \<Rightarrow> (Inl e, m)
      | Inr cm \<Rightarrow>
          ping_chains s cs (m\<lparr>inner := cm, nextHealthCheckRqId := nextHealthCheckRqId m + 1\<rparr>))"

fun ping_sandboxes ::
  "('sid \<times> (chainId \<times> Chain) list) list \<Rightarrow> 'sid ConnectionManagerWithHealth
     \<Rightarrow> (error + unit) \<times> 'sid ConnectionManagerWithHealth" where
  "ping_sandboxes [] m = (Inr (), m)"
| "ping_sandboxes ((s, sandbox) # rest) m =
     (case ping_chains s (map fst sandbox) m of
        (Inl e, m') \<Rightarrow> (Inl e, m')
      | (Inr u, m') \<Rightarrow> ping_sandboxes rest m')"

definition sendPings ::
  "'sid ConnectionManagerWithHealth \<Rightarrow> (error + unit) \<times> 'sid ConnectionManagerWithHealth" where
  "sendPings m = ping_sandboxes (sandboxesChains m) m"

subsection \<open>Runs of one instance\<close>

text \<open>The constructor: an inner manager without sandboxes, no chains, the counter at 0.\<close>

definition new_manager :: "'sid ConnectionManagerWithHealth" where
  "new_manager =
     \<lparr>inner = \<lparr>cm_sandboxes = [], cm_received = [], cm_queue = []\<rparr>,
      sandboxesChains = [], nextHealthCheckRqId = 0\<rparr>"

text \<open>What can happen to an instance: a call of one of its methods, a tick of the ping timer,
  or the inner manager producing an item.\<close>

datatype 'sid event =
    CallAddSandbox 'sid
  | CallDeleteSandbox 'sid
  | CallSandboxMessage 'sid ToExtension
  | CallNextSandboxMessage 'sid
  | TimerFires
  | InnerProduces 'sid ToApplication

fun after_event :: "'sid ConnectionManagerWithHealth \<Rightarrow> 'sid event \<Rightarrow> 'sid ConnectionManagerWithHealth" where
  "after_event m (CallAddSandbox s) = snd (addSandbox m s)"
| "after_event m (CallDeleteSandbox s) = snd (deleteSandbox m s)"
| "after_event m (CallSandboxMessage s msg) = snd (sandboxMessage m s msg)"
| "after_event m (CallNextSandboxMessage s) = snd (nextSandboxMessage m s)"
| "after_event m TimerFires = snd (sendPings m)"
| "after_event m (InnerProduces s x) = m\<lparr>inner := cm_produce (inner m) s x\<rparr>"

definition run :: "'sid ConnectionManagerWithHealth \<Rightarrow> 'sid event list \<Rightarrow> 'sid ConnectionManagerWithHealth" where
  "run m evs = foldl after_event m evs"

section \<open>Notions used in the statements\<close>

text \<open>The instance after the inner manager has handed out the head of the queue of \<open>s\<close>,
  leaving \<open>q\<close>; the instance after the inner manager has accepted a message; the health
  record of a chain.\<close>

definition dequeued :: "'sid ConnectionManagerWithHealth \<Rightarrow> 'sid \<Rightarrow> ToApplication list \<Rightarrow> 'sid ConnectionManagerWithHealth" where
  "dequeued m s q = m\<lparr>inner := (inner m)\<lparr>cm_queue := AList.update s q (cm_queue (inner m))\<rparr>\<rparr>"

definition delegated :: "'sid ConnectionManagerWithHealth \<Rightarrow> 'sid \<Rightarrow> ToExtension \<Rightarrow> 'sid ConnectionManagerWithHealth" where
  "delegated m s msg = m\<lparr>inner := (inner m)\<lparr>cm_received := cm_received (inner m) @ [(s, msg)]\<rparr>\<rparr>"

definition chain_of :: "'sid ConnectionManagerWithHealth \<Rightarrow> 'sid \<Rightarrow> chainId \<Rightarrow> Chain option" where
  "chain_of m s c =
     (case map_of (sandboxesChains m) s of None \<Rightarrow> None | Some sandbox \<Rightarrow> map_of sandbox c)"

text \<open>The pairs of a sandbox and a chain that have a health record; the messages one firing
  of the ping timer hands to the inner manager; the \<^verbatim>\<open>system_health\<close> requests for a set of
  pairs.\<close>

definition tracked :: "'sid ConnectionManagerWithHealth \<Rightarrow> ('sid \<times> chainId) set" where
  "tracked m = {(s, c). \<exists>sandbox. (s, sandbox) \<in> set (sandboxesChains m) \<and> c \<in> fst ` set sandbox}"

definition pairs_of :: "('sid \<times> (chainId \<times> Chain) list) list \<Rightarrow> ('sid \<times> chainId) set" where
  "pairs_of al = {(s, c). \<exists>sandbox. (s, sandbox) \<in> set al \<and> c \<in> fst ` set sandbox}"

definition pinged :: "'sid ConnectionManagerWithHealth \<Rightarrow> ('sid \<times> ToExtension) list" where
  "pinged m = drop (length (cm_received (inner m))) (cm_received (inner (snd (sendPings m))))"

definition health_pings :: "('sid \<times> chainId) set \<Rightarrow> ('sid \<times> ToExtension) set" where
  "health_pings P = {(s, ExtRpc c (health_request n)) | s c n. (s, c) \<in> P}"

text \<open>The \<^verbatim>\<open>id\<close> of a request, read from its text.\<close>

definition request_id :: "ToExtension \<Rightarrow> jsval" where
  "request_id msg =
     (case msg of
        ExtRpc c text \<Rightarrow> (case JSON_parse text of Some (JObject ms) \<Rightarrow> map_of ms ''id'' | _ \<Rightarrow> None)
      | _ \<Rightarrow> None)"

subsection \<open>Concrete instances, messages and runs\<close>

definition one_sandbox :: "nat ConnectionManagerWithHealth" where
  "one_sandbox =
     \<lparr>inner = \<lparr>cm_sandboxes = [0], cm_received = [], cm_queue = []\<rparr>,
      sandboxesChains = [(0, [])], nextHealthCheckRqId = 0\<rparr>"

definition two_chains :: "nat ConnectionManagerWithHealth" where
  "two_chains =
     \<lparr>inner = \<lparr>cm_sandboxes = [0, 1], cm_received = [], cm_queue = []\<rparr>,
      sandboxesChains =
        [(0, [(''A'', \<lparr>readySubscriptionId = Some (JString ''sub-A''), isSyncing = False,
                         peers = Some (JNumber 2)\<rparr>)]),
         (1, [(''B'', \<lparr>readySubscriptionId = Some (JString ''sub-B''), isSyncing = True,
                         peers = Some (JNumber 0)\<rparr>)])],
      nextHealthCheckRqId = 5\<rparr>"

definition with_item :: "nat ConnectionManagerWithHealth \<Rightarrow> nat \<Rightarrow> ToApplication \<Rightarrow> nat ConnectionManagerWithHealth" where
  "with_item m s x = m\<lparr>inner := cm_produce (inner m) s x\<rparr>"

definition after_delete :: "nat ConnectionManagerWithHealth" where
  "after_delete = snd (deleteSandbox two_chains 0)"




definition notification_text :: string where
  \<open>notification_text = ''{"jsonrpc":"2.0","method":"author_extrinsicUpdate","params":[]}''\<close>

definition health_reply :: string where
  \<open>health_reply = ''{"jsonrpc":"2.0","id":"health-check:4","result":{"isSyncing":false,"peers":7,"shouldHavePeers":true}}''\<close>

definition health_reply_queued :: "nat ConnectionManagerWithHealth" where
  "health_reply_queued =
     two_chains\<lparr>inner := cm_produce (inner two_chains) 0 (AppRpc ''A'' health_reply)\<rparr>"

definition stray_reply :: string where
  \<open>stray_reply = ''{"jsonrpc":"2.0","id":"sub:17","result":null}''\<close>

definition subscription_reply :: string where
  \<open>subscription_reply = ''{"jsonrpc":"2.0","id":"ready-sub:0","result":"sub-A"}''\<close>

definition numeric_id_reply :: string where
  \<open>numeric_id_reply = ''{"jsonrpc":"2.0","id":5,"result":null}''\<close>

definition new_block_event :: string where
  \<open>new_block_event = ''{"jsonrpc":"2.0","method":"chainHead_unstable_followEvent","params":{"subscription":"sub-A","result":{"event":"newBlock","blockHash":"0x00"}}}''\<close>

definition foreign_event :: string where
  \<open>foreign_event = ''{"jsonrpc":"2.0","method":"chainHead_unstable_followEvent","params":{"subscription":"client-7","result":{"event":"stop"}}}''\<close>

definition stop_event :: "string \<Rightarrow> string" where
  \<open>stop_event sub = ''{"jsonrpc":"2.0","method":"chainHead_unstable_followEvent","params":{"subscription":"''
      @ sub @ ''","result":{"event":"stop"}}}''\<close>

definition subscribed_reply :: "nat \<Rightarrow> string \<Rightarrow> string" where
  \<open>subscribed_reply n sub = ''{"jsonrpc":"2.0","id":"ready-sub:'' @ show_nat n @ ''","result":"'' @ sub @ ''"}''\<close>

definition stopped_twice :: "nat event list" where
  "stopped_twice =
     [CallAddSandbox 0,
      InnerProduces 0 (ChainReady ''A''),
      InnerProduces 0 (AppRpc ''A'' (subscribed_reply 0 ''sub-1'')),
      InnerProduces 0 (AppRpc ''A'' (stop_event ''sub-1'')),
      InnerProduces 0 (AppRpc ''A'' (subscribed_reply 1 ''sub-2'')),
      InnerProduces 0 (AppRpc ''A'' (stop_event ''sub-2'')),
      CallNextSandboxMessage 0,
      CallNextSandboxMessage 0]"

definition ready_after_stop :: "nat event list" where
  "ready_after_stop =
     [CallAddSandbox 0,
      InnerProduces 0 (ChainReady ''A''),
      InnerProduces 0 (AppRpc ''A'' (subscribed_reply 0 ''sub-1'')),
      InnerProduces 0 (AppRpc ''A'' (stop_event ''sub-1'')),
      InnerProduces 0 (ChainReady ''B''),
      CallNextSandboxMessage 0,
      CallNextSandboxMessage 0]"

definition two_sandboxes_stopped :: "nat event list" where
  "two_sandboxes_stopped =
     [CallAddSandbox 0, CallAddSandbox 1,
      InnerProduces 0 (ChainReady ''A''), InnerProduces 1 (ChainReady ''B''),
      CallNextSandboxMessage 0, CallNextSandboxMessage 1,
      InnerProduces 0 (AppRpc ''A'' (subscribed_reply 0 ''sub-A'')),
      InnerProduces 1 (AppRpc ''B'' (subscribed_reply 1 ''sub-B'')),
      InnerProduces 0 (AppRpc ''A'' (stop_event ''sub-A'')),
      InnerProduces 1 (AppRpc ''B'' (stop_event ''sub-B'')),
      CallNextSandboxMessage 0, CallNextSandboxMessage 1]"

section \<open>Properties of the JSON text functions\<close>

text \<open>Reading back what was written, for the values that are not containers.\<close>

lemma digit_char_table:
  "list_all (\<lambda>d. hex_val (digit_char d) = Some d \<and> (d < 10 \<longrightarrow> is_digit (digit_char d) \<and> digit_val (digit_char d) = d \<and> (d \<noteq> 0 \<longrightarrow> digit_char d \<noteq> CHR ''0'')))
     [0..<16]"
  by code_simp


lemma is_digit_digit_char: "d < 10 \<Longrightarrow> is_digit (digit_char d)"
  using digit_char_table by (simp add: list_all_iff)

lemma digit_val_digit_char: "d < 10 \<Longrightarrow> digit_val (digit_char d) = d"
  using digit_char_table by (simp add: list_all_iff)

lemma digit_char_nonzero: "d < 10 \<Longrightarrow> d \<noteq> 0 \<Longrightarrow> digit_char d \<noteq> CHR ''0''"
  using digit_char_table by (simp add: list_all_iff)





lemma show_nat_digits: "show_nat n \<noteq> [] \<and> is_digit (hd (show_nat n)) \<and> (n \<noteq> 0 \<longrightarrow> hd (show_nat n) \<noteq> CHR ''0'')"
proof (induction n rule: show_nat.induct)
  case (1 n)
  show ?case
  proof (cases "n < 10")
    case True
    then show ?thesis
      by (simp add: show_nat.simps [of n] is_digit_digit_char digit_char_nonzero)
  next
    case False
    then have "n div 10 \<noteq> 0" by simp
    with False 1 show ?thesis
      by (simp add: show_nat.simps [of n])
  qed
qed

lemma scan_digits_show_nat:
  "scan_digits acc (show_nat n @ r) = scan_digits (acc * 10 ^ length (show_nat n) + n) r"
proof (induction n arbitrary: acc r rule: show_nat.induct)
  case (1 n)
  show ?case
  proof (cases "n < 10")
    case True
    then show ?thesis
      by (simp add: show_nat.simps [of n] is_digit_digit_char digit_val_digit_char)
  next
    case False
    have d: "is_digit (digit_char (n mod 10))" "digit_val (digit_char (n mod 10)) = n mod 10"
      by (simp_all add: is_digit_digit_char digit_val_digit_char)
    have "scan_digits acc (show_nat n @ r)
          = scan_digits acc (show_nat (n div 10) @ digit_char (n mod 10) # r)"
      using False by (simp add: show_nat.simps [of n])
    also have "\<dots> = scan_digits (acc * 10 ^ length (show_nat (n div 10)) + n div 10)
                        (digit_char (n mod 10) # r)"
      using False by (rule "1.IH")
    also have "\<dots> = scan_digits ((acc * 10 ^ length (show_nat (n div 10)) + n div 10) * 10 + n mod 10) r"
      by (simp add: d)
    also have "(acc * 10 ^ length (show_nat (n div 10)) + n div 10) * 10 + n mod 10
               = acc * 10 ^ length (show_nat n) + n"
      using False by (simp add: show_nat.simps [of n] algebra_simps)
    finally show ?thesis .
  qed
qed

lemma scan_number_show_nat: "scan_number (show_nat n) = Some (n, [])"
proof (cases "n = 0")
  case True
  then show ?thesis
    by (simp add: scan_number_def show_nat.simps [of 0] digit_char_def is_digit_def)
next
  case False
  obtain c cs where cs: "show_nat n = c # cs"
    using show_nat_digits [of n] by (cases "show_nat n") auto
  with show_nat_digits [of n] False have c: "is_digit c" "c \<noteq> CHR ''0''"
    by auto
  have "scan_digits 0 (show_nat n @ []) = (n, [])"
    by (simp only: scan_digits_show_nat) simp
  with cs c have "scan_digits (digit_val c) cs = (n, [])"
    by simp
  with cs c show ?thesis
    by (simp add: scan_number_def)
qed







section \<open>Facts about single steps\<close>


lemma nextSandboxMessage_item:
  assumes "s \<in> set (cm_sandboxes (inner m))" and "queue_of (inner m) s = x # q"
  shows "nextSandboxMessage m s =
           (case handle_item (dequeued m s q) s x of
              (Return d, m') \<Rightarrow> (Delivered d, m')
            | (Throw e, m') \<Rightarrow> (Threw e, m')
            | (Continue, m') \<Rightarrow> nextSandboxMessage m' s)"
  using assms
  by (subst nextSandboxMessage.simps) (simp add: cm_nextSandboxMessage_def dequeued_def)

lemma cm_sandboxMessage_known:
  "s \<in> set (cm_sandboxes (inner m)) \<Longrightarrow>
   cm_sandboxMessage (inner m) s msg = Inr (inner (delegated m s msg))"
  by (simp add: cm_sandboxMessage_def delegated_def)

lemma obj_set_id_absent:
  "map_of ms ''id'' = None \<Longrightarrow> obj_set ms ''id'' v = ms @ [(''id'', v)]"
  by (simp add: obj_set_def map_of_eq_None_iff is_array_index_def is_digit_def)


lemma startsWith_append [simp]: "startsWith (p @ x) p"
  by (simp add: startsWith_def)

lemma dequeued_simps [simp]:
  "sandboxesChains (dequeued m s q) = sandboxesChains m"
  "nextHealthCheckRqId (dequeued m s q) = nextHealthCheckRqId m"
  "cm_received (inner (dequeued m s q)) = cm_received (inner m)"
  "cm_sandboxes (inner (dequeued m s q)) = cm_sandboxes (inner m)"
  by (simp_all add: dequeued_def)

lemma delegated_simps [simp]:
  "sandboxesChains (delegated m s msg) = sandboxesChains m"
  "nextHealthCheckRqId (delegated m s msg) = nextHealthCheckRqId m"
  "cm_received (inner (delegated m s msg)) = cm_received (inner m) @ [(s, msg)]"
  "cm_sandboxes (inner (delegated m s msg)) = cm_sandboxes (inner m)"
  "cm_queue (inner (delegated m s msg)) = cm_queue (inner m)"
  by (simp_all add: delegated_def)

lemma queue_of_dequeued [simp]: "queue_of (inner (dequeued m s q)) s = q"
  by (simp add: dequeued_def queue_of_def update_conv')

lemma strict_eq_string [simp]: "strict_eq v (Some (JString x)) \<longleftrightarrow> v = Some (JString x)"
  by (cases "(v, Some (JString x))" rule: strict_eq.cases) auto

lemma health_check_not_extern: "startsWith i ''health-check:'' \<Longrightarrow> \<not> startsWith i ''extern:''"
  by (cases i) (auto simp: startsWith_def)

lemma ready_sub_not_others:
  "startsWith i ''ready-sub:'' \<Longrightarrow> \<not> startsWith i ''extern:'' \<and> \<not> startsWith i ''health-check:''"
  by (cases i) (auto simp: startsWith_def)

lemma get_prop_error: "get_prop v k = Inl e \<Longrightarrow> e = TypeError"
  by (cases "(v, k)" rule: get_prop.cases) auto

lemma set_prop_error: "set_prop j k v = Inl e \<Longrightarrow> e = TypeError"
  by (cases "(j, k, v)" rule: set_prop.cases) auto

lemma map_of_Some_key: "map_of al k = Some v \<Longrightarrow> k \<in> fst ` set al"
  by (metis domI dom_map_of_conv_image_fst)

lemma update_present_keys: "map_of al k = Some v \<Longrightarrow> map fst (AList.update k w al) = map fst al"
  by (simp add: update_keys map_of_Some_key)

lemma chain_of_store_chain:
  "chain_of (store_chain m s sandbox c ch) s' c' =
     (if s' = s then (if c' = c then Some ch else map_of sandbox c') else chain_of m s' c')"
  by (simp add: chain_of_def store_chain_def update_conv')

lemma chain_of_dequeued [simp]: "chain_of (dequeued m s q) = chain_of m"
  by (simp add: chain_of_def fun_eq_iff)

lemma store_chain_simps [simp]:
  "inner (store_chain m s sandbox c ch) = inner m"
  "nextHealthCheckRqId (store_chain m s sandbox c ch) = nextHealthCheckRqId m"
  by (simp_all add: store_chain_def)

section \<open>The transitions of the health record\<close>

text \<open>What one turn of the loop does on \<^verbatim>\<open>chain-ready\<close>, and on the \<^verbatim>\<open>initialized\<close> and
  \<^verbatim>\<open>stop\<close> events of the current ready subscription. The first two send a request under
  the value of the counter and advance the counter; the third sends its request and does
  not. Ids made from different values of the counter, or with different prefixes, differ,
  and none starts with \<^verbatim>\<open>extern:\<close>.\<close>

lemma show_nat_inj:
  assumes "show_nat a = show_nat b"
  shows "a = b"
proof -
  have "Some (a, []) = scan_number (show_nat a)" by (simp add: scan_number_show_nat)
  also have "\<dots> = scan_number (show_nat b)" by (simp only: assms)
  also have "\<dots> = Some (b, [])" by (simp add: scan_number_show_nat)
  finally show ?thesis by simp
qed

lemma internal_ids_differ:
  "''ready-sub:'' @ show_nat a \<noteq> ''health-check:'' @ show_nat b"
  "a \<noteq> b \<Longrightarrow> ''ready-sub:'' @ show_nat a \<noteq> ''ready-sub:'' @ show_nat b"
  "a \<noteq> b \<Longrightarrow> ''health-check:'' @ show_nat a \<noteq> ''health-check:'' @ show_nat b"
  "\<not> startsWith (''ready-sub:'' @ show_nat a) ''extern:''"
  "\<not> startsWith (''health-check:'' @ show_nat a) ''extern:''"
  by (auto simp: startsWith_def dest: show_nat_inj)

lemma chain_ready_transition:
  assumes "s \<in> set (cm_sandboxes (inner m))" and "queue_of (inner m) s = ChainReady c # q"
    and "map_of (sandboxesChains m) s = Some sandbox"
  shows "nextSandboxMessage m s =
           (Delivered (ToApp (ChainReady c)),
            (delegated
               (store_chain (dequeued m s q) s sandbox c
                  \<lparr>readySubscriptionId = None, isSyncing = True, peers = Some (JNumber 0)\<rparr>)
               s (ExtRpc c (follow_request (nextHealthCheckRqId m))))
            \<lparr>nextHealthCheckRqId := nextHealthCheckRqId m + 1\<rparr>)"
  using assms
  by (simp add: nextSandboxMessage_item [OF assms(1,2)] Let_def cm_sandboxMessage_def
                delegated_def store_chain_def)

lemma initialized_transition:
  assumes "s \<in> set (cm_sandboxes (inner m))" and "queue_of (inner m) s = AppRpc c text # q"
    and "map_of (sandboxesChains m) s = Some sandbox" "map_of sandbox c = Some chain"
    and "readySubscriptionId chain = Some (JString sub)"
    and "JSON_parse text = Some (JObject ms)" "\<not> truthy (map_of ms ''id'')"
      "map_of ms ''method'' = Some (JString ''chainHead_unstable_followEvent'')"
      "map_of ms ''params'' = Some (JObject ps)"
      "map_of ps ''subscription'' = Some (JString sub)"
      "map_of ps ''result'' = Some (JObject rs)"
      "map_of rs ''event'' = Some (JString ''initialized'')"
  shows "nextSandboxMessage m s =
           (Delivered ChainsStatusChanged,
            (delegated
               (store_chain (dequeued m s q) s sandbox c (chain\<lparr>isSyncing := False\<rparr>))
               s (ExtRpc c (health_request (nextHealthCheckRqId m))))
            \<lparr>nextHealthCheckRqId := nextHealthCheckRqId m + 1\<rparr>)"
proof -
  have "handle_notification (dequeued m s q) s c text sandbox (JObject ms) =
          (Return ChainsStatusChanged,
            (delegated
               (store_chain (dequeued m s q) s sandbox c (chain\<lparr>isSyncing := False\<rparr>))
               s (ExtRpc c (health_request (nextHealthCheckRqId m))))
            \<lparr>nextHealthCheckRqId := nextHealthCheckRqId m + 1\<rparr>)"
    using assms(1,4,5,8-12)
    by (simp add: handle_notification_def Let_def cm_sandboxMessage_def delegated_def)
  then have "handle_rpc (dequeued m s q) s c text =
          (Return ChainsStatusChanged,
            (delegated
               (store_chain (dequeued m s q) s sandbox c (chain\<lparr>isSyncing := False\<rparr>))
               s (ExtRpc c (health_request (nextHealthCheckRqId m))))
            \<lparr>nextHealthCheckRqId := nextHealthCheckRqId m + 1\<rparr>)"
    using assms(3,6,7) by (simp add: handle_rpc_def)
  then show ?thesis
    by (simp add: nextSandboxMessage_item [OF assms(1,2)])
qed

lemma stop_transition:
  assumes "s \<in> set (cm_sandboxes (inner m))" and "queue_of (inner m) s = AppRpc c text # q"
    and "map_of (sandboxesChains m) s = Some sandbox" "map_of sandbox c = Some chain"
    and "readySubscriptionId chain = Some (JString sub)"
    and "JSON_parse text = Some (JObject ms)" "\<not> truthy (map_of ms ''id'')"
      "map_of ms ''method'' = Some (JString ''chainHead_unstable_followEvent'')"
      "map_of ms ''params'' = Some (JObject ps)"
      "map_of ps ''subscription'' = Some (JString sub)"
      "map_of ps ''result'' = Some (JObject rs)"
      "map_of rs ''event'' = Some (JString ''stop'')"
  shows "handle_item (dequeued m s q) s (AppRpc c text) =
           (Continue,
            delegated
              (store_chain (dequeued m s q) s sandbox c (chain\<lparr>readySubscriptionId := None\<rparr>))
              s (ExtRpc c (follow_request (nextHealthCheckRqId m))))"
proof -
  have "handle_notification (dequeued m s q) s c text sandbox (JObject ms) =
          (Continue,
            delegated
              (store_chain (dequeued m s q) s sandbox c (chain\<lparr>readySubscriptionId := None\<rparr>))
              s (ExtRpc c (follow_request (nextHealthCheckRqId m))))"
    using assms(1,4,5,8-12)
    by (simp add: handle_notification_def Let_def cm_sandboxMessage_def delegated_def)
  then show ?thesis
    using assms(3,6,7) by (simp add: handle_rpc_def)
qed

section \<open>Facts about the ping timer and about runs\<close>

lemma health_pings_mono: "P \<subseteq> Q \<Longrightarrow> health_pings P \<subseteq> health_pings Q"
  unfolding health_pings_def by blast

lemma health_pings_member: "(s, c) \<in> P \<Longrightarrow> (s, ExtRpc c (health_request n)) \<in> health_pings P"
  unfolding health_pings_def by blast

lemma ping_chains_sent:
  "ping_chains s cs m = (r, m') \<Longrightarrow>
   sandboxesChains m' = sandboxesChains m \<and>
   (\<exists>new. cm_received (inner m') = cm_received (inner m) @ new \<and>
          set new \<subseteq> health_pings ({s} \<times> set cs))"
proof (induction cs arbitrary: m)
  case Nil
  then show ?case by simp
next
  case (Cons c cs)
  show ?case
  proof (cases "cm_sandboxMessage (inner m) s (ExtRpc c (health_request (nextHealthCheckRqId m)))")
    case (Inl e)
    with Cons.prems show ?thesis by simp
  next
    case (Inr cm)
    let ?m1 = "m\<lparr>inner := cm, nextHealthCheckRqId := nextHealthCheckRqId m + 1\<rparr>"
    let ?first = "(s, ExtRpc c (health_request (nextHealthCheckRqId m)))"
    from Inr have cm: "cm_received cm = cm_received (inner m) @ [?first]"
      by (auto simp: cm_sandboxMessage_def split: if_splits)
    from Cons.prems Inr have "ping_chains s cs ?m1 = (r, m')" by simp
    from Cons.IH [OF this] obtain new where
      new: "sandboxesChains m' = sandboxesChains m"
        "cm_received (inner m') = cm_received cm @ new"
        "set new \<subseteq> health_pings ({s} \<times> set cs)"
      by auto
    have "health_pings ({s} \<times> set cs) \<subseteq> health_pings ({s} \<times> set (c # cs))"
      by (rule health_pings_mono) auto
    moreover have "?first \<in> health_pings ({s} \<times> set (c # cs))"
      by (rule health_pings_member) simp
    ultimately have "set (?first # new) \<subseteq> health_pings ({s} \<times> set (c # cs))"
      using new(3) by auto
    moreover have "cm_received (inner m') = cm_received (inner m) @ (?first # new)"
      using new(2) cm by simp
    ultimately show ?thesis using new(1) by blast
  qed
qed

lemma pairs_of_Cons: "pairs_of ((s, sandbox) # al) = ({s} \<times> fst ` set sandbox) \<union> pairs_of al"
  unfolding pairs_of_def by auto

lemma ping_sandboxes_sent:
  "ping_sandboxes al m = (r, m') \<Longrightarrow>
   sandboxesChains m' = sandboxesChains m \<and>
   (\<exists>new. cm_received (inner m') = cm_received (inner m) @ new \<and>
          set new \<subseteq> health_pings (pairs_of al))"
proof (induction al arbitrary: m)
  case Nil
  then show ?case by simp
next
  case (Cons p al)
  obtain s sandbox where p: "p = (s, sandbox)" by (cases p)
  obtain r1 m1 where first: "ping_chains s (map fst sandbox) m = (r1, m1)"
    by (cases "ping_chains s (map fst sandbox) m")
  from ping_chains_sent [OF first] obtain new1 where
    n1: "sandboxesChains m1 = sandboxesChains m"
      "cm_received (inner m1) = cm_received (inner m) @ new1"
      "set new1 \<subseteq> health_pings ({s} \<times> set (map fst sandbox))"
    by auto
  have "health_pings ({s} \<times> set (map fst sandbox)) \<subseteq> health_pings (pairs_of (p # al))"
    by (rule health_pings_mono) (auto simp: p pairs_of_Cons)
  with n1(3) have ok1: "set new1 \<subseteq> health_pings (pairs_of (p # al))" by blast
  show ?case
  proof (cases r1)
    case (Inl e)
    with Cons.prems p first have "m' = m1" by simp
    with n1(1,2) ok1 show ?thesis by blast
  next
    case (Inr u)
    with Cons.prems p first have "ping_sandboxes al m1 = (r, m')" by simp
    from Cons.IH [OF this] obtain new2 where
      n2: "sandboxesChains m' = sandboxesChains m1"
        "cm_received (inner m') = cm_received (inner m1) @ new2"
        "set new2 \<subseteq> health_pings (pairs_of al)"
      by auto
    have "health_pings (pairs_of al) \<subseteq> health_pings (pairs_of (p # al))"
      by (rule health_pings_mono) (auto simp: p pairs_of_Cons)
    with n2(3) ok1 have "set (new1 @ new2) \<subseteq> health_pings (pairs_of (p # al))" by auto
    moreover have "cm_received (inner m') = cm_received (inner m) @ (new1 @ new2)"
      using n1(2) n2(2) by simp
    moreover have "sandboxesChains m' = sandboxesChains m"
      using n1(1) n2(1) by simp
    ultimately show ?thesis by blast
  qed
qed

lemma pinged_tracked: "set (pinged m) \<subseteq> health_pings (tracked m)"
proof -
  obtain r m' where run: "sendPings m = (r, m')" by (cases "sendPings m")
  then have "ping_sandboxes (sandboxesChains m) m = (r, m')" by (simp add: sendPings_def)
  from ping_sandboxes_sent [OF this] obtain new where
    new: "cm_received (inner m') = cm_received (inner m) @ new"
      "set new \<subseteq> health_pings (pairs_of (sandboxesChains m))"
    by auto
  have "pinged m = new" using run new(1) by (simp add: pinged_def)
  moreover have "pairs_of (sandboxesChains m) = tracked m"
    by (simp add: pairs_of_def tracked_def)
  ultimately show ?thesis using new(2) by simp
qed

lemma keys_update_present:
  "map_of al k = Some v \<Longrightarrow> fst ` set (AList.update k w al) = fst ` set al"
  by (auto simp: dom_update dest: map_of_Some_key)

lemma keys_store_chain:
  "map_of (sandboxesChains m) s = Some sandbox \<Longrightarrow>
   fst ` set (sandboxesChains (store_chain m s sandbox c ch)) = fst ` set (sandboxesChains m)"
  by (simp add: store_chain_def keys_update_present)

lemma cm_sandboxMessage_cases:
  "cm_sandboxMessage cm s x = Inl InnerError \<or>
   cm_sandboxMessage cm s x = Inr (cm\<lparr>cm_received := cm_received cm @ [(s, x)]\<rparr>)"
  by (simp add: cm_sandboxMessage_def)

lemma keys_handle_response:
  assumes "handle_response m s c sandbox msg idv = (t, m')"
    and "map_of (sandboxesChains m) s = Some sandbox"
  shows "fst ` set (sandboxesChains m') = fst ` set (sandboxesChains m)"
proof -
  have k: "fst ` set (sandboxesChains (store_chain m s sandbox c ch)) = fst ` set (sandboxesChains m)" for ch
    using assms(2) by (rule keys_store_chain)
  have "sandboxesChains m' = sandboxesChains m \<or>
        (\<exists>ch. sandboxesChains m' = sandboxesChains (store_chain m s sandbox c ch))"
    using assms(1)
    by (auto simp: handle_response_def
             split: option.splits json.splits if_splits sum.splits)
  then show ?thesis using k by (elim disjE exE conjE) simp_all
qed

lemma keys_handle_notification:
  assumes "handle_notification m s c text sandbox msg = (t, m')"
    and "map_of (sandboxesChains m) s = Some sandbox"
  shows "fst ` set (sandboxesChains m') = fst ` set (sandboxesChains m)"
proof -
  have k: "fst ` set (sandboxesChains (store_chain m s sandbox c ch)) = fst ` set (sandboxesChains m)" for ch
    using assms(2) by (rule keys_store_chain)
  have "sandboxesChains m' = sandboxesChains m \<or>
        (\<exists>ch. sandboxesChains m' = sandboxesChains (store_chain m s sandbox c ch))"
    using assms(1)
    by (auto simp: handle_notification_def Let_def
             split: option.splits if_splits sum.splits)
  then show ?thesis using k by (elim disjE exE conjE) simp_all
qed

lemma keys_handle_item:
  assumes "handle_item m s x = (t, m')"
  shows "fst ` set (sandboxesChains m') = fst ` set (sandboxesChains m)"
proof (cases x)
  case (ChainReady c)
  have k: "fst ` set (sandboxesChains (store_chain m s sandbox c ch)) = fst ` set (sandboxesChains m)"
    if "map_of (sandboxesChains m) s = Some sandbox" for sandbox ch
    using that by (rule keys_store_chain)
  have "sandboxesChains m' = sandboxesChains m \<or>
        (\<exists>sandbox ch. map_of (sandboxesChains m) s = Some sandbox \<and>
            sandboxesChains m' = sandboxesChains (store_chain m s sandbox c ch))"
    using assms ChainReady
    by (auto simp: Let_def split: option.splits sum.splits)
  then show ?thesis using k by (elim disjE exE conjE) simp_all
next
  case (AppRpc c payload)
  have "sandboxesChains m' = sandboxesChains m \<or>
        (\<exists>sandbox msg idv. map_of (sandboxesChains m) s = Some sandbox \<and>
            handle_response m s c sandbox msg idv = (t, m')) \<or>
        (\<exists>sandbox msg. map_of (sandboxesChains m) s = Some sandbox \<and>
            handle_notification m s c payload sandbox msg = (t, m'))"
    using assms AppRpc
    by (auto simp: handle_rpc_def split: option.splits sum.splits if_splits)
  then show ?thesis
    by (elim disjE exE conjE) (simp_all add: keys_handle_response keys_handle_notification)
next
  case (AppError c msg)
  have "sandboxesChains m' = sandboxesChains m \<or>
        (\<exists>sandbox. map_of (sandboxesChains m) s = Some sandbox \<and>
            sandboxesChains m' = AList.update s (AList.delete c sandbox) (sandboxesChains m))"
    using assms AppError by (auto split: option.splits)
  then show ?thesis by (elim disjE exE conjE) (simp_all add: keys_update_present)
next
  case (AppOther tag)
  with assms show ?thesis by auto
qed

lemma keys_nextSandboxMessage:
  "fst ` set (sandboxesChains (snd (nextSandboxMessage m s))) = fst ` set (sandboxesChains m)"
proof (induction m s rule: nextSandboxMessage.induct)
  case (1 m s)
  show ?case
  proof (cases "cm_nextSandboxMessage (inner m) s")
    case (CmThrew e)
    then show ?thesis by (subst nextSandboxMessage.simps) simp
  next
    case CmPending
    then show ?thesis by (subst nextSandboxMessage.simps) simp
  next
    case (CmItem x cm)
    obtain t m' where h: "handle_item (m\<lparr>inner := cm\<rparr>) s x = (t, m')"
      by (cases "handle_item (m\<lparr>inner := cm\<rparr>) s x")
    from keys_handle_item [OF h]
    have k: "fst ` set (sandboxesChains m') = fst ` set (sandboxesChains m)" by simp
    show ?thesis
    proof (cases t)
      case (Return d)
      with CmItem h k show ?thesis by (subst nextSandboxMessage.simps) simp
    next
      case (Throw e)
      with CmItem h k show ?thesis by (subst nextSandboxMessage.simps) simp
    next
      case Continue
      with CmItem h have "nextSandboxMessage m s = nextSandboxMessage m' s"
        by (subst nextSandboxMessage.simps) simp
      moreover have "fst ` set (sandboxesChains (snd (nextSandboxMessage m' s)))
                     = fst ` set (sandboxesChains m')"
        using "1.IH" [OF CmItem h [symmetric] Continue] by simp
      ultimately show ?thesis using k by simp
    qed
  qed
qed

lemma keys_sandboxMessage:
  "fst ` set (sandboxesChains (snd (sandboxMessage m s msg))) = fst ` set (sandboxesChains m)"
proof -
  have "sandboxesChains (snd (sandboxMessage m s msg)) = sandboxesChains m \<or>
        (\<exists>sandbox c. map_of (sandboxesChains m) s = Some sandbox \<and>
            sandboxesChains (snd (sandboxMessage m s msg))
              = AList.update s (AList.delete c sandbox) (sandboxesChains m))"
    by (cases msg) (auto simp: Let_def split: option.splits sum.splits)
  then show ?thesis by (elim disjE exE conjE) (simp_all add: keys_update_present)
qed

lemma keys_sendPings: "sandboxesChains (snd (sendPings m)) = sandboxesChains m"
proof -
  obtain r m' where run: "sendPings m = (r, m')" by (cases "sendPings m")
  then have "ping_sandboxes (sandboxesChains m) m = (r, m')" by (simp add: sendPings_def)
  from ping_sandboxes_sent [OF this] run show ?thesis by simp
qed

lemma keys_deleteSandbox:
  "fst ` set (sandboxesChains (snd (deleteSandbox m s))) \<subseteq> fst ` set (sandboxesChains m)"
  using dom_delete_subset [of s "sandboxesChains m"]
  by (auto simp: deleteSandbox_def split: sum.splits)

lemma keys_addSandbox:
  "fst ` set (sandboxesChains (snd (addSandbox m s))) \<subseteq> insert s (fst ` set (sandboxesChains m))"
  by (auto simp: addSandbox_def dom_update split: sum.splits)

lemma keys_after_event:
  assumes "ev \<noteq> CallAddSandbox s" and "s \<notin> fst ` set (sandboxesChains m)"
  shows "s \<notin> fst ` set (sandboxesChains (after_event m ev))"
proof (cases ev)
  case (CallAddSandbox s')
  with assms keys_addSandbox [of m s'] show ?thesis by auto
next
  case (CallDeleteSandbox s')
  with assms keys_deleteSandbox [of m s'] show ?thesis by auto
next
  case (CallSandboxMessage s' msg)
  with assms show ?thesis by (simp add: keys_sandboxMessage)
next
  case (CallNextSandboxMessage s')
  with assms show ?thesis by (simp add: keys_nextSandboxMessage)
next
  case TimerFires
  with assms show ?thesis by (simp add: keys_sendPings)
next
  case (InnerProduces s' x)
  with assms show ?thesis by simp
qed

lemma keys_run:
  assumes "CallAddSandbox s \<notin> set evs" and "s \<notin> fst ` set (sandboxesChains m)"
  shows "s \<notin> fst ` set (sandboxesChains (run m evs))"
  using assms unfolding run_def
proof (induction evs arbitrary: m)
  case Nil
  then show ?case by simp
next
  case (Cons ev evs)
  from Cons.prems have "ev \<noteq> CallAddSandbox s" by auto
  from keys_after_event [OF this Cons.prems(2)] Cons.prems(1) Cons.IH show ?case by simp
qed

lemma not_tracked_not_pinged:
  assumes "s \<notin> fst ` set (sandboxesChains m)"
  shows "s \<notin> fst ` set (pinged m)"
proof
  assume "s \<in> fst ` set (pinged m)"
  then obtain msg where "(s, msg) \<in> set (pinged m)" by auto
  with pinged_tracked [of m] have "(s, msg) \<in> health_pings (tracked m)" by blast
  then obtain c where "(s, c) \<in> tracked m" by (auto simp: health_pings_def)
  then show False using assms by (force simp: tracked_def)
qed

section \<open>External identifiers\<close>



section \<open>Events of the ready subscription\<close>

text \<open>
  Claim C2 says that a \<^verbatim>\<open>chainHead_unstable_followEvent\<close> notification on the current ready
  subscription of a tracked chain, with an event other than \<^verbatim>\<open>initialized\<close> and \<^verbatim>\<open>stop\<close>, is
  surfaced to the caller unmodified. The code does not surface it: the \<^verbatim>\<open>switch\<close> over the
  event has no case for it, control reaches the \<^verbatim>\<open>break\<close> of the \<^verbatim>\<open>rpc\<close> case and the loop
  asks the inner manager for the next item. With a \<^verbatim>\<open>newBlock\<close> event as the only item, the
  call stays pending.
\<close>

theorem other_follow_event_counterexample:
  "nextSandboxMessage (with_item two_chains 0 (AppRpc ''A'' new_block_event)) 0 =
     (Pending, dequeued (with_item two_chains 0 (AppRpc ''A'' new_block_event)) 0 [])
   \<and> fst (nextSandboxMessage (with_item two_chains 0 (AppRpc ''A'' new_block_event)) 0)
       \<noteq> Delivered (ToApp (AppRpc ''A'' new_block_event))"
  by code_simp

text \<open>
  Claim C2, amended. For a tracked chain, a notification of the method
  \<^verbatim>\<open>chainHead_unstable_followEvent\<close> on the current ready subscription whose event is neither
  \<^verbatim>\<open>initialized\<close> nor \<^verbatim>\<open>stop\<close> is consumed: the turn of the loop changes nothing in the
  instance, sends nothing to the inner manager and delivers nothing, and
  \<open>nextSandboxMessage\<close> goes on with the items that follow it. A notification of another
  method, and a follow event of a subscription that is not the current one, is delivered
  unmodified, with no other effect.
\<close>

theorem other_follow_event_is_consumed:
  assumes known: "s \<in> set (cm_sandboxes (inner m))"
    and head: "queue_of (inner m) s = AppRpc c text # q"
    and tracked: "map_of (sandboxesChains m) s = Some sandbox" "map_of sandbox c = Some chain"
    and notification: "JSON_parse text = Some (JObject ms)" "\<not> truthy (map_of ms ''id'')"
  shows "(map_of ms ''method'' = Some (JString ''chainHead_unstable_followEvent'') \<and>
          map_of ms ''params'' = Some (JObject ps) \<and>
          strict_eq (map_of ps ''subscription'') (readySubscriptionId chain) \<and>
          map_of ps ''result'' = Some (JObject rs) \<and>
          map_of rs ''event'' \<noteq> Some (JString ''initialized'') \<and>
          map_of rs ''event'' \<noteq> Some (JString ''stop'')
          \<longrightarrow> handle_item (dequeued m s q) s (AppRpc c text) = (Continue, dequeued m s q)
              \<and> nextSandboxMessage m s = nextSandboxMessage (dequeued m s q) s)
       \<and> (map_of ms ''method'' \<noteq> Some (JString ''chainHead_unstable_followEvent'') \<or>
          map_of ms ''params'' = Some (JObject ps) \<and>
          \<not> strict_eq (map_of ps ''subscription'') (readySubscriptionId chain)
          \<longrightarrow> nextSandboxMessage m s = (Delivered (ToApp (AppRpc c text)), dequeued m s q))"
proof (intro conjI impI)
  assume a: "map_of ms ''method'' = Some (JString ''chainHead_unstable_followEvent'') \<and>
          map_of ms ''params'' = Some (JObject ps) \<and>
          strict_eq (map_of ps ''subscription'') (readySubscriptionId chain) \<and>
          map_of ps ''result'' = Some (JObject rs) \<and>
          map_of rs ''event'' \<noteq> Some (JString ''initialized'') \<and>
          map_of rs ''event'' \<noteq> Some (JString ''stop'')"
  then have "handle_notification (dequeued m s q) s c text sandbox (JObject ms)
               = (Continue, dequeued m s q)"
    using tracked(2) by (simp add: handle_notification_def)
  then have item: "handle_rpc (dequeued m s q) s c text = (Continue, dequeued m s q)"
    using tracked(1) notification by (simp add: handle_rpc_def)
  then show "handle_item (dequeued m s q) s (AppRpc c text) = (Continue, dequeued m s q)"
    by simp
  from item show "nextSandboxMessage m s = nextSandboxMessage (dequeued m s q) s"
    by (simp add: nextSandboxMessage_item [OF known head])
next
  assume b: "map_of ms ''method'' \<noteq> Some (JString ''chainHead_unstable_followEvent'') \<or>
          map_of ms ''params'' = Some (JObject ps) \<and>
          \<not> strict_eq (map_of ps ''subscription'') (readySubscriptionId chain)"
  then have "handle_notification (dequeued m s q) s c text sandbox (JObject ms)
               = (Return (ToApp (AppRpc c text)), dequeued m s q)"
    using tracked(2) by (auto simp: handle_notification_def)
  then have "handle_rpc (dequeued m s q) s c text
               = (Return (ToApp (AppRpc c text)), dequeued m s q)"
    using tracked(1) notification by (simp add: handle_rpc_def)
  then show "nextSandboxMessage m s = (Delivered (ToApp (AppRpc c text)), dequeued m s q)"
    by (simp add: nextSandboxMessage_item [OF known head])
qed

theorem other_follow_event_is_consumed_witness:
  "handle_item (dequeued (with_item two_chains 0 (AppRpc ''A'' new_block_event)) 0 []) 0
       (AppRpc ''A'' new_block_event)
     = (Continue, dequeued (with_item two_chains 0 (AppRpc ''A'' new_block_event)) 0 [])
   \<and> nextSandboxMessage (with_item two_chains 0 (AppRpc ''A'' new_block_event)) 0
     = nextSandboxMessage (dequeued (with_item two_chains 0 (AppRpc ''A'' new_block_event)) 0 []) 0
   \<and> nextSandboxMessage (with_item two_chains 0 (AppRpc ''A'' foreign_event)) 0
     = (Delivered (ToApp (AppRpc ''A'' foreign_event)),
        dequeued (with_item two_chains 0 (AppRpc ''A'' foreign_event)) 0 [])"
proof -
  let ?m = "with_item two_chains 0 (AppRpc ''A'' new_block_event)"
  let ?chain = "\<lparr>readySubscriptionId = Some (JString ''sub-A''), isSyncing = False,
                  peers = Some (JNumber 2)\<rparr>"
  let ?rs = "[(''event'', JString ''newBlock''), (''blockHash'', JString ''0x00'')]"
  let ?ps = "[(''subscription'', JString ''sub-A''), (''result'', JObject ?rs)]"
  let ?ms = "[(''jsonrpc'', JString ''2.0''),
              (''method'', JString ''chainHead_unstable_followEvent''),
              (''params'', JObject ?ps)]"
  have h1: "(0::nat) \<in> set (cm_sandboxes (inner ?m))" by code_simp
  have h2: "queue_of (inner ?m) 0 = AppRpc ''A'' new_block_event # []" by code_simp
  have h3: "map_of (sandboxesChains ?m) 0 = Some [(''A'', ?chain)]" by code_simp
  have h4: "map_of [(''A'', ?chain)] ''A'' = Some ?chain" by simp
  have h5: "JSON_parse new_block_event = Some (JObject ?ms)" by code_simp
  have h6: "\<not> truthy (map_of ?ms ''id'')" by simp
  have first: "handle_item (dequeued ?m 0 []) 0 (AppRpc ''A'' new_block_event)
                 = (Continue, dequeued ?m 0 [])
               \<and> nextSandboxMessage ?m 0 = nextSandboxMessage (dequeued ?m 0 []) 0"
    using other_follow_event_is_consumed [OF h1 h2 h3 h4 h5 h6, of ?ps ?rs] by simp
  let ?m' = "with_item two_chains 0 (AppRpc ''A'' foreign_event)"
  let ?ps' = "[(''subscription'', JString ''client-7''),
               (''result'', JObject [(''event'', JString ''stop'')])]"
  let ?ms' = "[(''jsonrpc'', JString ''2.0''),
               (''method'', JString ''chainHead_unstable_followEvent''),
               (''params'', JObject ?ps')]"
  have k1: "(0::nat) \<in> set (cm_sandboxes (inner ?m'))" by code_simp
  have k2: "queue_of (inner ?m') 0 = AppRpc ''A'' foreign_event # []" by code_simp
  have k3: "map_of (sandboxesChains ?m') 0 = Some [(''A'', ?chain)]" by code_simp
  have k5: "JSON_parse foreign_event = Some (JObject ?ms')" by code_simp
  have k6: "\<not> truthy (map_of ?ms' ''id'')" by simp
  have second: "nextSandboxMessage ?m' 0
                  = (Delivered (ToApp (AppRpc ''A'' foreign_event)), dequeued ?m' 0 [])"
    using other_follow_event_is_consumed [OF k1 k2 k3 h4 k5 k6, of ?ps'] by simp
  from first second show ?thesis by simp
qed

section \<open>Identifiers made from the counter\<close>

text \<open>
  Claim C3 says that the ids made for ready-subscription and health-check requests are
  pairwise distinct. The \<^verbatim>\<open>stop\<close> branch sends \<^verbatim>\<open>ready-sub:\<close> with the value of the counter
  and, unlike the \<^verbatim>\<open>chain-ready\<close> and \<^verbatim>\<open>initialized\<close> branches and \<^verbatim>\<open>#sendPings\<close>, does not
  advance the counter. In the run below two chains of two sandboxes are stopped one after
  the other, and both new subscriptions are requested under \<^verbatim>\<open>ready-sub:2\<close>.
\<close>

theorem internal_ids_repeat:
  "map (\<lambda>(s, msg). (s, request_id msg)) (cm_received (inner (run new_manager two_sandboxes_stopped))) =
     [(0, Some (JString ''ready-sub:0'')), (1, Some (JString ''ready-sub:1'')),
      (0, Some (JString ''ready-sub:2'')), (1, Some (JString ''ready-sub:2''))]
   \<and> \<not> distinct (map (request_id \<circ> snd)
                       (cm_received (inner (run new_manager two_sandboxes_stopped))))"
  by code_simp

text \<open>
  Claim C4 says that the request sent on \<^verbatim>\<open>chain-ready\<close> carries a fresh ready-sub id. In the
  run below chain \<open>A\<close> is stopped and chain \<open>B\<close> becomes ready afterwards: the request for
  \<open>B\<close> carries \<^verbatim>\<open>ready-sub:1\<close>, the id the \<^verbatim>\<open>stop\<close> branch has sent just before.
\<close>

theorem chain_ready_repeats_id_of_stop:
  "cm_received (inner (run new_manager ready_after_stop)) =
     [(0, ExtRpc ''A'' (follow_request 0)),
      (0, ExtRpc ''A'' (follow_request 1)),
      (0, ExtRpc ''B'' (follow_request 1))]
   \<and> map (request_id \<circ> snd) (cm_received (inner (run new_manager ready_after_stop))) =
     [Some (JString ''ready-sub:0''), Some (JString ''ready-sub:1''), Some (JString ''ready-sub:1'')]"
  by code_simp

text \<open>
  Claim C5 says that the request sent on \<^verbatim>\<open>stop\<close> carries a fresh ready-sub id. In the run
  below the subscription of chain \<open>A\<close> is stopped, set up again and stopped again: both
  \<^verbatim>\<open>stop\<close> events send \<^verbatim>\<open>ready-sub:1\<close>, and the counter still stands at 1.
\<close>

theorem stop_reuses_ready_sub_id:
  "cm_received (inner (run new_manager stopped_twice)) =
     [(0, ExtRpc ''A'' (follow_request 0)),
      (0, ExtRpc ''A'' (follow_request 1)),
      (0, ExtRpc ''A'' (follow_request 1))]
   \<and> nextHealthCheckRqId (run new_manager stopped_twice) = 1"
  by code_simp

section \<open>Health-check responses\<close>

text \<open>
  Claim C6. For a tracked chain, a response whose id starts with \<^verbatim>\<open>health-check:\<close> and whose
  \<^verbatim>\<open>result.peers\<close> is \<open>n\<close> makes \<open>nextSandboxMessage\<close> deliver one \<^verbatim>\<open>chains-status-changed\<close>
  message. Afterwards the record of the chain holds \<open>n\<close> as \<open>peers\<close> and is otherwise as it
  was; the records of all other chains, the sandboxes of the map and their order, the
  messages handed to the inner manager and the counter are as before; the items behind the
  response are still queued.
\<close>

theorem peer_update:
  assumes known: "s \<in> set (cm_sandboxes (inner m))"
    and head: "queue_of (inner m) s = AppRpc c text # q"
    and tracked: "map_of (sandboxesChains m) s = Some sandbox" "map_of sandbox c = Some chain"
    and response: "JSON_parse text = Some (JObject ms)" "map_of ms ''id'' = Some (JString i)"
      "startsWith i ''health-check:''"
    and result: "map_of ms ''result'' = Some (JObject rs)" "map_of rs ''peers'' = Some n"
  shows "\<exists>m'. nextSandboxMessage m s = (Delivered ChainsStatusChanged, m')
           \<and> chain_of m' s c = Some (chain\<lparr>peers := Some n\<rparr>)
           \<and> (\<forall>s' c'. (s', c') \<noteq> (s, c) \<longrightarrow> chain_of m' s' c' = chain_of m s' c')
           \<and> map fst (sandboxesChains m') = map fst (sandboxesChains m)
           \<and> cm_received (inner m') = cm_received (inner m)
           \<and> nextHealthCheckRqId m' = nextHealthCheckRqId m
           \<and> cm_sandboxes (inner m') = cm_sandboxes (inner m)
           \<and> queue_of (inner m') s = q"
proof -
  let ?m' = "store_chain (dequeued m s q) s sandbox c (chain\<lparr>peers := Some n\<rparr>)"
  have nonempty: "i \<noteq> []"
    using response(3) by (auto simp: startsWith_def)
  have "handle_response (dequeued m s q) s c sandbox (JObject ms) (Some (JString i))
          = (Return ChainsStatusChanged, ?m')"
    using response(3) health_check_not_extern [OF response(3)] result tracked(2)
    by (simp add: handle_response_def)
  then have "handle_item (dequeued m s q) s (AppRpc c text) = (Return ChainsStatusChanged, ?m')"
    using response(1,2) tracked(1) nonempty by (simp add: handle_rpc_def)
  then have run: "nextSandboxMessage m s = (Delivered ChainsStatusChanged, ?m')"
    by (simp add: nextSandboxMessage_item [OF known head])
  have others: "\<forall>s' c'. (s', c') \<noteq> (s, c) \<longrightarrow> chain_of ?m' s' c' = chain_of m s' c'"
    using tracked(1) by (auto simp: chain_of_store_chain) (simp add: chain_of_def)
  have keys: "map fst (sandboxesChains ?m') = map fst (sandboxesChains m)"
    using tracked(1) by (simp add: store_chain_def update_present_keys)
  show ?thesis
    using run others keys by (intro exI [of _ ?m']) (simp add: chain_of_store_chain)
qed

theorem peer_update_witness:
  "fst (nextSandboxMessage health_reply_queued 0) = Delivered ChainsStatusChanged
   \<and> chain_of (snd (nextSandboxMessage health_reply_queued 0)) 0 ''A'' =
       Some \<lparr>readySubscriptionId = Some (JString ''sub-A''), isSyncing = False,
             peers = Some (JNumber 7)\<rparr>
   \<and> chain_of (snd (nextSandboxMessage health_reply_queued 0)) 1 ''B'' =
       Some \<lparr>readySubscriptionId = Some (JString ''sub-B''), isSyncing = True,
             peers = Some (JNumber 0)\<rparr>
   \<and> cm_received (inner (snd (nextSandboxMessage health_reply_queued 0))) = []
   \<and> nextHealthCheckRqId (snd (nextSandboxMessage health_reply_queued 0)) = 5"
proof -
  let ?ms = "[(''jsonrpc'', JString ''2.0''), (''id'', JString ''health-check:4''),
              (''result'', JObject [(''isSyncing'', JBool False), (''peers'', JNumber 7),
                                    (''shouldHavePeers'', JBool True)])]"
  let ?rs = "[(''isSyncing'', JBool False), (''peers'', JNumber 7), (''shouldHavePeers'', JBool True)]"
  let ?chain = "\<lparr>readySubscriptionId = Some (JString ''sub-A''), isSyncing = False,
                  peers = Some (JNumber 2)\<rparr>"
  have h1: "(0::nat) \<in> set (cm_sandboxes (inner health_reply_queued))" by code_simp
  have h2: "queue_of (inner health_reply_queued) 0 = AppRpc ''A'' health_reply # []" by code_simp
  have h3: "map_of (sandboxesChains health_reply_queued) 0 = Some [(''A'', ?chain)]" by code_simp
  have h4: "map_of [(''A'', ?chain)] ''A'' = Some ?chain" by simp
  have h5: "JSON_parse health_reply = Some (JObject ?ms)" by code_simp
  have h6: "map_of ?ms ''id'' = Some (JString ''health-check:4'')" by simp
  have h7: "startsWith ''health-check:4'' ''health-check:''" by (simp add: startsWith_def)
  have h8: "map_of ?ms ''result'' = Some (JObject ?rs)" by simp
  have h9: "map_of ?rs ''peers'' = Some (JNumber 7)" by simp
  have b: "chain_of health_reply_queued 1 ''B'' =
             Some \<lparr>readySubscriptionId = Some (JString ''sub-B''), isSyncing = True,
                   peers = Some (JNumber 0)\<rparr>" by code_simp
  have r: "cm_received (inner health_reply_queued) = []" by code_simp
  have n: "nextHealthCheckRqId health_reply_queued = 5" by code_simp
  from peer_update [OF h1 h2 h3 h4 h5 h6 h7 h8 h9] b r n show ?thesis
    by auto
qed

section \<open>Payloads that are not JSON\<close>

text \<open>
  Claim C7 says that for a payload that does not parse, \<open>sandboxMessage\<close> delegates the
  unmodified message and does not fail itself. The comment of the method announces an
  exception for an invalid sandbox only, and the \<^verbatim>\<open>try\<close> statement is there so that the
  message is delegated whatever \<^verbatim>\<open>JSON.parse\<close> does. But the statement has a \<^verbatim>\<open>finally\<close> block
  and no \<^verbatim>\<open>catch\<close>: the message is delegated, and then the \<^verbatim>\<open>SyntaxError\<close> of \<^verbatim>\<open>JSON.parse\<close>
  leaves \<open>sandboxMessage\<close>. Below, the payload is cut off after the first colon and the
  sandbox is known.
\<close>

theorem sandboxMessage_throws_on_malformed_json:
  \<open>JSON_parse ''{"jsonrpc":'' = None
   \<and> sandboxMessage one_sandbox 0 (ExtRpc ''A'' ''{"jsonrpc":'') =
       (Inl SyntaxError, delegated one_sandbox 0 (ExtRpc ''A'' ''{"jsonrpc":''))\<close>
  by code_simp

section \<open>Responses of an unknown namespace\<close>

text \<open>
  Claim C8. The next item of a sandbox is an \<^verbatim>\<open>rpc\<close> response with a truthy \<^verbatim>\<open>id\<close>. When the
  id is a string that starts with none of \<^verbatim>\<open>extern:\<close>, \<^verbatim>\<open>health-check:\<close> and \<^verbatim>\<open>ready-sub:\<close>,
  \<open>nextSandboxMessage\<close> throws the plain \<^verbatim>\<open>Error\<close> and neither delivers the item nor goes on
  to the next one. When the id starts with one of the three, the turn of the loop does not
  end in that error. (A truthy id that is no string has no \<^verbatim>\<open>startsWith\<close>: the call throws a
  \<^verbatim>\<open>TypeError\<close>.)
\<close>

theorem unknown_namespace_is_fatal:
  assumes known: "s \<in> set (cm_sandboxes (inner m))"
    and head: "queue_of (inner m) s = AppRpc c text # q"
    and sandbox: "map_of (sandboxesChains m) s = Some sandbox"
    and response: "JSON_parse text = Some (JObject ms)" "map_of ms ''id'' = idv" "truthy idv"
  shows "(\<forall>i. idv = Some (JString i) \<longrightarrow>
            \<not> startsWith i ''extern:'' \<longrightarrow> \<not> startsWith i ''health-check:'' \<longrightarrow>
            \<not> startsWith i ''ready-sub:'' \<longrightarrow>
            nextSandboxMessage m s = (Threw PlainError, dequeued m s q))
       \<and> (\<forall>i. idv = Some (JString i) \<longrightarrow>
            startsWith i ''extern:'' \<or> startsWith i ''health-check:'' \<or> startsWith i ''ready-sub:'' \<longrightarrow>
            fst (handle_item (dequeued m s q) s (AppRpc c text)) \<noteq> Throw PlainError)
       \<and> ((\<forall>i. idv \<noteq> Some (JString i)) \<longrightarrow>
            nextSandboxMessage m s = (Threw TypeError, dequeued m s q))"
proof -
  have item: "handle_rpc (dequeued m s q) s c text
                = handle_response (dequeued m s q) s c sandbox (JObject ms) idv"
    using sandbox response by (simp add: handle_rpc_def)
  have a: "nextSandboxMessage m s = (Threw PlainError, dequeued m s q)"
    if "idv = Some (JString i)" "\<not> startsWith i ''extern:''" "\<not> startsWith i ''health-check:''"
       "\<not> startsWith i ''ready-sub:''" for i
    using that by (simp add: nextSandboxMessage_item [OF known head] item handle_response_def)
  have b: "fst (handle_item (dequeued m s q) s (AppRpc c text)) \<noteq> Throw PlainError"
    if "idv = Some (JString i)"
       "startsWith i ''extern:'' \<or> startsWith i ''health-check:'' \<or> startsWith i ''ready-sub:''" for i
    using that
    by (auto simp: item handle_response_def split: option.splits sum.splits
             dest: get_prop_error set_prop_error)
  have c: "nextSandboxMessage m s = (Threw TypeError, dequeued m s q)"
    if "\<forall>i. idv \<noteq> Some (JString i)"
    using that
    by (simp add: nextSandboxMessage_item [OF known head] item handle_response_def
             split: option.splits json.splits)
  from a b c show ?thesis by blast
qed

theorem unknown_namespace_is_fatal_witness:
  "nextSandboxMessage (with_item two_chains 0 (AppRpc ''A'' stray_reply)) 0 =
      (Threw PlainError, dequeued (with_item two_chains 0 (AppRpc ''A'' stray_reply)) 0 [])
   \<and> fst (handle_item (dequeued (with_item two_chains 0 (AppRpc ''A'' subscription_reply)) 0 []) 0
            (AppRpc ''A'' subscription_reply)) \<noteq> Throw PlainError
   \<and> nextSandboxMessage (with_item two_chains 0 (AppRpc ''A'' numeric_id_reply)) 0 =
      (Threw TypeError, dequeued (with_item two_chains 0 (AppRpc ''A'' numeric_id_reply)) 0 [])"
proof -
  let ?sandbox = "[(''A'', \<lparr>readySubscriptionId = Some (JString ''sub-A''), isSyncing = False,
                             peers = Some (JNumber 2)\<rparr>)]"
  let ?m1 = "with_item two_chains 0 (AppRpc ''A'' stray_reply)"
  let ?ms1 = "[(''jsonrpc'', JString ''2.0''), (''id'', JString ''sub:17''), (''result'', JNull)]"
  have a1: "(0::nat) \<in> set (cm_sandboxes (inner ?m1))" by code_simp
  have a2: "queue_of (inner ?m1) 0 = AppRpc ''A'' stray_reply # []" by code_simp
  have a3: "map_of (sandboxesChains ?m1) 0 = Some ?sandbox" by code_simp
  have a4: "JSON_parse stray_reply = Some (JObject ?ms1)" by code_simp
  have a5: "map_of ?ms1 ''id'' = Some (JString ''sub:17'')" by simp
  have a6: "truthy (Some (JString ''sub:17''))" by simp
  have a7: "\<not> startsWith ''sub:17'' ''extern:''" "\<not> startsWith ''sub:17'' ''health-check:''"
    "\<not> startsWith ''sub:17'' ''ready-sub:''" by (simp_all add: startsWith_def)
  have first: "nextSandboxMessage ?m1 0 = (Threw PlainError, dequeued ?m1 0 [])"
    using unknown_namespace_is_fatal [OF a1 a2 a3 a4 a5 a6] a7 by blast
  let ?m2 = "with_item two_chains 0 (AppRpc ''A'' subscription_reply)"
  let ?ms2 = "[(''jsonrpc'', JString ''2.0''), (''id'', JString ''ready-sub:0''),
               (''result'', JString ''sub-A'')]"
  have b1: "(0::nat) \<in> set (cm_sandboxes (inner ?m2))" by code_simp
  have b2: "queue_of (inner ?m2) 0 = AppRpc ''A'' subscription_reply # []" by code_simp
  have b3: "map_of (sandboxesChains ?m2) 0 = Some ?sandbox" by code_simp
  have b4: "JSON_parse subscription_reply = Some (JObject ?ms2)" by code_simp
  have b5: "map_of ?ms2 ''id'' = Some (JString ''ready-sub:0'')" by simp
  have b6: "truthy (Some (JString ''ready-sub:0''))" by simp
  have b7: "startsWith ''ready-sub:0'' ''ready-sub:''" by (simp add: startsWith_def)
  have second: "fst (handle_item (dequeued ?m2 0 []) 0 (AppRpc ''A'' subscription_reply))
                  \<noteq> Throw PlainError"
    using unknown_namespace_is_fatal [OF b1 b2 b3 b4 b5 b6] b7 by blast
  let ?m3 = "with_item two_chains 0 (AppRpc ''A'' numeric_id_reply)"
  let ?ms3 = "[(''jsonrpc'', JString ''2.0''), (''id'', JNumber 5), (''result'', JNull)]"
  have c1: "(0::nat) \<in> set (cm_sandboxes (inner ?m3))" by code_simp
  have c2: "queue_of (inner ?m3) 0 = AppRpc ''A'' numeric_id_reply # []" by code_simp
  have c3: "map_of (sandboxesChains ?m3) 0 = Some ?sandbox" by code_simp
  have c4: "JSON_parse numeric_id_reply = Some (JObject ?ms3)" by code_simp
  have c5: "map_of ?ms3 ''id'' = Some (JNumber 5)" by simp
  have c6: "truthy (Some (JNumber 5))" by simp
  have third: "nextSandboxMessage ?m3 0 = (Threw TypeError, dequeued ?m3 0 [])"
    using unknown_namespace_is_fatal [OF c1 c2 c3 c4 c5 c6] by blast
  from first second third show ?thesis by blast
qed

section \<open>Deleting a sandbox\<close>

text \<open>
  Claim C9. After \<open>deleteSandbox\<close> has succeeded for \<open>s\<close>, the map holds nothing for \<open>s\<close>, so
  no chain of \<open>s\<close> has a health record. Whatever happens to the instance afterwards, a
  firing of the ping timer hands the inner manager \<^verbatim>\<open>system_health\<close> requests for tracked
  pairs only; and as long as \<open>addSandbox\<close> is not called for \<open>s\<close>, no message of a firing
  is addressed to \<open>s\<close>.
\<close>

theorem deleted_sandbox_is_never_pinged:
  assumes "deleteSandbox m s = (Inr (), m')"
  shows "map_of (sandboxesChains m') s = None
       \<and> (\<forall>c. (s, c) \<notin> tracked m')
       \<and> (\<forall>evs. set (pinged (run m' evs)) \<subseteq> health_pings (tracked (run m' evs)))
       \<and> (\<forall>evs. CallAddSandbox s \<notin> set evs \<longrightarrow> s \<notin> fst ` set (pinged (run m' evs)))"
proof -
  from assms have m': "sandboxesChains m' = AList.delete s (sandboxesChains m)"
    by (auto simp: deleteSandbox_def split: sum.splits)
  then have gone: "s \<notin> fst ` set (sandboxesChains m')"
    by (simp add: delete_notin_dom)
  then have "map_of (sandboxesChains m') s = None"
    by (simp add: map_of_eq_None_iff)
  moreover have "\<forall>c. (s, c) \<notin> tracked m'"
    using gone by (force simp: tracked_def)
  moreover have "\<forall>evs. CallAddSandbox s \<notin> set evs \<longrightarrow> s \<notin> fst ` set (pinged (run m' evs))"
  proof (intro allI impI)
    fix evs :: "'a event list"
    assume "CallAddSandbox s \<notin> set evs"
    from keys_run [OF this gone] show "s \<notin> fst ` set (pinged (run m' evs))"
      by (rule not_tracked_not_pinged)
  qed
  ultimately show ?thesis using pinged_tracked by blast
qed

theorem deleted_sandbox_is_never_pinged_witness:
  "deleteSandbox two_chains 0 = (Inr (), after_delete)
   \<and> map_of (sandboxesChains after_delete) 0 = None
   \<and> pinged after_delete = [(1, ExtRpc ''B'' (health_request 5))]
   \<and> 0 \<notin> fst ` set (pinged (run after_delete
        [TimerFires, InnerProduces 1 (ChainReady ''C''), CallNextSandboxMessage 1,
         CallSandboxMessage 0 (RemoveChain ''A''), CallAddSandbox 2, TimerFires]))"
proof -
  have h: "deleteSandbox two_chains 0 = (Inr (), after_delete)" by code_simp
  have p: "pinged after_delete = [(1, ExtRpc ''B'' (health_request 5))]" by code_simp
  have e: "CallAddSandbox 0 \<notin> set [TimerFires, InnerProduces 1 (ChainReady ''C''),
         CallNextSandboxMessage 1, CallSandboxMessage (0::nat) (RemoveChain ''A''),
         CallAddSandbox 2, TimerFires]" by simp
  from deleted_sandbox_is_never_pinged [OF h] e p h show ?thesis by blast
qed

section \<open>Client notifications\<close>

text \<open>
  Claim C10. When the payload of an \<^verbatim>\<open>rpc\<close> message parses to an object without \<^verbatim>\<open>id\<close>,
  \<open>sandboxMessage\<close> hands the inner manager the object with a new last member \<^verbatim>\<open>id\<close>, the
  string \<^verbatim>\<open>extern:undefined\<close>.
\<close>

theorem notification_gets_extern_undefined:
  assumes "JSON_parse text = Some (JObject ms)" and "map_of ms ''id'' = None"
    and "s \<in> set (cm_sandboxes (inner m))"
  shows "sandboxMessage m s (ExtRpc c text) =
           (Inr (), delegated m s (ExtRpc c
              (JSON_stringify (JObject (ms @ [(''id'', JString ''extern:undefined'')])))))"
proof -
  have "wrap_id text = Inr (JSON_stringify (JObject (ms @ [(''id'', JString ''extern:undefined'')])))"
    using assms(1,2) by (simp add: wrap_id_def stringify_in_concat_def obj_set_id_absent)
  then show ?thesis
    using assms(3) by (simp add: cm_sandboxMessage_known delegated_def)
qed

theorem notification_gets_extern_undefined_witness:
  \<open>sandboxMessage one_sandbox 0 (ExtRpc ''A'' notification_text) =
     (Inr (), delegated one_sandbox 0 (ExtRpc ''A''
        ''{"jsonrpc":"2.0","method":"author_extrinsicUpdate","params":[],"id":"extern:undefined"}''))\<close>
proof -
  let ?ms = "[(''jsonrpc'', JString ''2.0''), (''method'', JString ''author_extrinsicUpdate''),
              (''params'', JArray [])]"
  have h1: "JSON_parse notification_text = Some (JObject ?ms)" by code_simp
  have h2: "map_of ?ms ''id'' = None" by simp
  have h3: "(0::nat) \<in> set (cm_sandboxes (inner one_sandbox))" by (simp add: one_sandbox_def)
  have t: \<open>JSON_stringify (JObject (?ms @ [(''id'', JString ''extern:undefined'')]))
      = ''{"jsonrpc":"2.0","method":"author_extrinsicUpdate","params":[],"id":"extern:undefined"}''\<close>
    by code_simp
  from notification_gets_extern_undefined [OF h1 h2 h3, of "''A''"] show ?thesis
    unfolding t .
qed

end
